theory Spec2Isabelle
  imports Complex_Main "HOL-Library.AList" "HOL-Library.Multiset" "HOL-Library.Char_ord"
    "HOL-Library.List_Lexorder" "HOL-Library.Log_Nat"
begin

section \<open>JavaScript numbers\<close>

text \<open>
  A JavaScript number is a binary64 double: a finite value, one of the two infinities,
  or \<open>NaN\<close>. The model keeps a finite value as the rational it denotes and rounds the
  result of every arithmetic operation to the nearest double, ties to the even
  significand, as the operations of the language do. The sign of zero is not kept.
\<close>

datatype number = Finite rat | Infinity | NegInfinity | NaN

text \<open>The exponent of a positive rational: the \<open>e\<close> with \<open>2^e \<le> q < 2^(e+1)\<close>.\<close>

definition floorLog2 :: "rat \<Rightarrow> int" where
  "floorLog2 q =
     (if 1 \<le> q then int (floorlog 2 (nat \<lfloor>q\<rfloor>)) - 1
      else - int (floorlog 2 (nat (\<lceil>1 / q\<rceil> - 1))))"

definition roundHalfEven :: "rat \<Rightarrow> int" where
  "roundHalfEven x =
     (let f = \<lfloor>x\<rfloor>; r = x - of_int f
      in if r < 1 / 2 then f else if 1 / 2 < r then f + 1 else if even f then f else f + 1)"

text \<open>
  Rounding to binary64: 53 significant bits, the exponent not below that of the
  subnormal numbers, and \<open>Infinity\<close> from \<open>2^1024\<close> on.
\<close>

definition roundDouble :: "rat \<Rightarrow> number" where
  "roundDouble q =
     (if q = 0 then Finite 0
      else
        (let e = max (floorLog2 \<bar>q\<bar>) (- 1022);
             ulp = 2 powi (e - 52);
             r = of_int (roundHalfEven (\<bar>q\<bar> / ulp)) * ulp
         in if 2 ^ 1024 \<le> r then (if 0 < q then Infinity else NegInfinity)
            else Finite (if 0 < q then r else - r)))"

text \<open>\<open>Number.isFinite\<close> on a number, \<open><\<close>, \<open><=\<close>, unary minus, \<open>+\<close>, \<open>-\<close>, \<open>*\<close>, \<open>Math.floor\<close>.\<close>

fun isFinite :: "number \<Rightarrow> bool" where
  "isFinite (Finite q) = True"
| "isFinite _ = False"

fun js_lt :: "number \<Rightarrow> number \<Rightarrow> bool" where
  "js_lt (Finite a) (Finite b) = (a < b)"
| "js_lt (Finite a) Infinity = True"
| "js_lt NegInfinity (Finite b) = True"
| "js_lt NegInfinity Infinity = True"
| "js_lt _ _ = False"

fun js_le :: "number \<Rightarrow> number \<Rightarrow> bool" where
  "js_le (Finite a) (Finite b) = (a \<le> b)"
| "js_le NaN _ = False"
| "js_le _ NaN = False"
| "js_le _ Infinity = True"
| "js_le NegInfinity _ = True"
| "js_le _ _ = False"

definition js_gt :: "number \<Rightarrow> number \<Rightarrow> bool" where
  "js_gt a b = js_lt b a"

definition js_ge :: "number \<Rightarrow> number \<Rightarrow> bool" where
  "js_ge a b = js_le b a"

fun js_neg :: "number \<Rightarrow> number" where
  "js_neg (Finite a) = Finite (- a)"
| "js_neg Infinity = NegInfinity"
| "js_neg NegInfinity = Infinity"
| "js_neg NaN = NaN"

fun js_add :: "number \<Rightarrow> number \<Rightarrow> number" where
  "js_add (Finite a) (Finite b) = roundDouble (a + b)"
| "js_add NaN _ = NaN"
| "js_add _ NaN = NaN"
| "js_add Infinity NegInfinity = NaN"
| "js_add NegInfinity Infinity = NaN"
| "js_add Infinity _ = Infinity"
| "js_add _ Infinity = Infinity"
| "js_add NegInfinity _ = NegInfinity"
| "js_add _ NegInfinity = NegInfinity"

definition js_sub :: "number \<Rightarrow> number \<Rightarrow> number" where
  "js_sub a b = js_add a (js_neg b)"

fun js_mul :: "number \<Rightarrow> number \<Rightarrow> number" where
  "js_mul (Finite a) (Finite b) = roundDouble (a * b)"
| "js_mul NaN _ = NaN"
| "js_mul _ NaN = NaN"
| "js_mul (Finite a) b = (if a = 0 then NaN else if 0 < a then b else js_neg b)"
| "js_mul a (Finite b) = (if b = 0 then NaN else if 0 < b then a else js_neg a)"
| "js_mul Infinity b = b"
| "js_mul NegInfinity b = js_neg b"

fun js_floor :: "number \<Rightarrow> number" where
  "js_floor (Finite a) = Finite (of_int \<lfloor>a\<rfloor>)"
| "js_floor a = a"

text \<open>The numbers that \<open>!x\<close> and \<open>x || y\<close> read as false.\<close>

fun falsyNumber :: "number \<Rightarrow> bool" where
  "falsyNumber (Finite a) = (a = 0)"
| "falsyNumber NaN = True"
| "falsyNumber _ = False"

section \<open>JavaScript values as they reach the gateway\<close>

text \<open>
  The route document, the usage ledger and the upstream payloads are JSON data, read
  with \<open>JSON.parse\<close>. A number of such a document is a finite double or, for a literal
  beyond the range of the doubles (\<open>1e999\<close>), an infinity. An object is an association
  list in insertion order.
\<close>

datatype jsv =
    JUndefined
  | JNull
  | JBool bool
  | JNum number
  | JStr string
  | JArr "jsv list"
  | JObj "(string \<times> jsv) list"

text \<open>Property read \<open>v[k]\<close> of an own data property; a missing one reads \<open>undefined\<close>.\<close>

fun js_get :: "jsv \<Rightarrow> string \<Rightarrow> jsv" where
  "js_get (JObj kvs) k = (case map_of kvs k of Some v \<Rightarrow> v | None \<Rightarrow> JUndefined)"
| "js_get _ k = JUndefined"

text \<open>
  \<open>x && typeof x === 'object' && !Array.isArray(x) ? x : {}\<close>, as the quota check reads
  \<open>route.modelLimits\<close> and \<open>route.modelUsage\<close>.
\<close>

fun plainObjectOrEmpty :: "jsv \<Rightarrow> (string \<times> jsv) list" where
  "plainObjectOrEmpty (JObj kvs) = kvs"
| "plainObjectOrEmpty _ = []"

section \<open>Quota enforcement (server/handlers/claude.js and openai.js)\<close>

text \<open>
  The two handlers carry the same private copy of the functions below, line for line;
  one model stands for both.

  A route of \<open>config.routing.routes\<close>: its \<open>id\<close> and \<open>routeId\<close> (strings, empty when
  absent) and the two maps the quota check reads, kept as the JSON values they are.
\<close>

record route_cfg =
  id_field :: string
  routeId :: string
  modelLimits :: jsv
  modelUsage :: jsv

text \<open>
  What the functions read from the JavaScript runtime and from the file system is
  collected in an environment: \<open>Number(s)\<close> on a string, \<open>Date.now()\<close>, the local
  calendar fields of \<open>new Date()\<close>, the instant
  \<open>new Date(y, m, d).getTime()\<close>, the rendering of a number in a template string, the
  rendering \<open>new Date(t).toLocaleString('zh-CN', ...)\<close>, and \<open>saveConfigJson\<close> applied
  to the routes, which rewrites the persisted document (of some type \<open>'d\<close>) or throws
  (\<open>None\<close>).
\<close>

record 'd env =
  Number_str :: "string \<Rightarrow> number"
  Date_now :: number
  nowFullYear :: int
  nowMonth :: int
  nowDate :: int
  nowDay :: int
  Date_ymd :: "int \<Rightarrow> int \<Rightarrow> int \<Rightarrow> number"
  String_num :: "number \<Rightarrow> string"
  Date_toLocaleString :: "number \<Rightarrow> string"
  saveConfigJson :: "route_cfg list \<Rightarrow> 'd \<Rightarrow> 'd option"

text \<open>
  The in-memory \<open>config.routing.routes\<close> and the persisted document. The route objects
  are mutated in place, so a change to a route is a change at its position in the list.
\<close>

record 'd gateway =
  routes :: "route_cfg list"
  disk :: 'd

fun findIndex :: "('a \<Rightarrow> bool) \<Rightarrow> 'a list \<Rightarrow> nat option" where
  "findIndex P [] = None"
| "findIndex P (x # xs) = (if P x then Some 0 else map_option Suc (findIndex P xs))"

text \<open>\<open>(r?.id || r?.routeId || '').toString()\<close>\<close>

definition routeKey :: "route_cfg \<Rightarrow> string" where
  "routeKey r = (if id_field r \<noteq> [] then id_field r else routeId r)"

text \<open>\<open>getRoutingRouteById\<close>: the position of the route found, \<open>None\<close> for \<open>null\<close>.\<close>

definition getRoutingRouteById :: "route_cfg list \<Rightarrow> string \<Rightarrow> nat option" where
  "getRoutingRouteById rs rid =
     (if rid = [] then None else findIndex (\<lambda>r. routeKey r = rid) rs)"

text \<open>
  \<open>parseNonNegativeInt(value, fallback)\<close>. The source returns either the integer or the
  fallback (\<open>0\<close> or \<open>null\<close>); \<open>ret\<close> injects the integer into the type of the fallback.
  \<open>Number.isFinite\<close> is false of every value that is not a number.
\<close>

definition parseNonNegativeInt ::
  "(string \<Rightarrow> number) \<Rightarrow> (number \<Rightarrow> 'a) \<Rightarrow> jsv \<Rightarrow> 'a \<Rightarrow> 'a" where
  "parseNonNegativeInt Num ret value fallback =
     (let num = (case value of JStr s \<Rightarrow> Some (Num s) | JNum n \<Rightarrow> Some n | _ \<Rightarrow> None) in
      case num of
        None \<Rightarrow> fallback
      | Some n \<Rightarrow>
          if \<not> isFinite n then fallback
          else
            (let intVal = js_floor n in
             if js_lt intVal (Finite 0) then fallback else ret intVal))"

definition getPeriodStartTimestamp :: "'d env \<Rightarrow> string \<Rightarrow> number" where
  "getPeriodStartTimestamp e periodType =
     (if periodType = ''daily'' then Date_ymd e (nowFullYear e) (nowMonth e) (nowDate e)
      else if periodType = ''weekly'' then
        (let day = nowDay e;
             diff = nowDate e - day + (if day = 0 then - 6 else 1)
         in Date_ymd e (nowFullYear e) (nowMonth e) diff)
      else if periodType = ''monthly'' then Date_ymd e (nowFullYear e) (nowMonth e) 1
      else Finite 0)"

record usage_entry =
  totalUsed :: number
  periodUsed :: number
  lastReset :: number

definition normalizeUsageEntry :: "(string \<Rightarrow> number) \<Rightarrow> jsv \<Rightarrow> usage_entry" where
  "normalizeUsageEntry Num usage =
     (case usage of
        JNum n \<Rightarrow> \<lparr>totalUsed = n, periodUsed = Finite 0, lastReset = Finite 0\<rparr>
      | JObj kvs \<Rightarrow>
          \<lparr>totalUsed = parseNonNegativeInt Num id (js_get usage ''totalUsed'') (Finite 0),
           periodUsed = parseNonNegativeInt Num id (js_get usage ''periodUsed'') (Finite 0),
           lastReset = parseNonNegativeInt Num id (js_get usage ''lastReset'') (Finite 0)\<rparr>
      | JArr xs \<Rightarrow>
          \<lparr>totalUsed = parseNonNegativeInt Num id (js_get usage ''totalUsed'') (Finite 0),
           periodUsed = parseNonNegativeInt Num id (js_get usage ''periodUsed'') (Finite 0),
           lastReset = parseNonNegativeInt Num id (js_get usage ''lastReset'') (Finite 0)\<rparr>
      | _ \<Rightarrow> \<lparr>totalUsed = Finite 0, periodUsed = Finite 0, lastReset = Finite 0\<rparr>)"

record limit_entry =
  lim_total :: "number option"
  lim_period :: "string option"
  lim_periodLimit :: "number option"
  lim_expireAt :: "number option"

text \<open>\<open>x !== undefined && x !== null && x !== ''\<close>\<close>

definition isSet :: "jsv \<Rightarrow> bool" where
  "isSet x = (x \<noteq> JUndefined \<and> x \<noteq> JNull \<and> x \<noteq> JStr [])"

text \<open>The object branch of \<open>normalizeLimitEntry\<close> (an array is an object too).\<close>

definition normalizeLimitObject :: "(string \<Rightarrow> number) \<Rightarrow> jsv \<Rightarrow> limit_entry option" where
  "normalizeLimitObject Num limit =
     (let totalLimit = (if isSet (js_get limit ''total'')
                   then parseNonNegativeInt Num Some (js_get limit ''total'') None else None);
          period = (case js_get limit ''period'' of
                      JStr p \<Rightarrow> if p \<in> set [''daily'', ''weekly'', ''monthly''] then Some p else None
                    | _ \<Rightarrow> None);
          periodLimit = (if period \<noteq> None \<and> isSet (js_get limit ''periodLimit'')
                         then parseNonNegativeInt Num Some (js_get limit ''periodLimit'') None
                         else None);
          expireAt = (if isSet (js_get limit ''expireAt'')
                      then parseNonNegativeInt Num Some (js_get limit ''expireAt'') None else None)
      in if totalLimit = None \<and> periodLimit = None \<and> expireAt = None then None
         else Some \<lparr>lim_total = totalLimit, lim_period = period,
                    lim_periodLimit = periodLimit, lim_expireAt = expireAt\<rparr>)"

definition normalizeLimitEntry :: "(string \<Rightarrow> number) \<Rightarrow> jsv \<Rightarrow> limit_entry option" where
  "normalizeLimitEntry Num limit =
     (case limit of
        JUndefined \<Rightarrow> None
      | JNull \<Rightarrow> None
      | JNum n \<Rightarrow> Some \<lparr>lim_total = Some n, lim_period = None,
                          lim_periodLimit = None, lim_expireAt = None\<rparr>
      | JObj kvs \<Rightarrow> normalizeLimitObject Num limit
      | JArr xs \<Rightarrow> normalizeLimitObject Num limit
      | _ \<Rightarrow> None)"

text \<open>The object the quota check returns.\<close>

datatype quota_result =
    Unmetered
  | Expired number
  | TotalExceeded number number
  | PeriodExceeded string number number
  | Consumed number number

fun allowed :: "quota_result \<Rightarrow> bool" where
  "allowed Unmetered = True"
| "allowed (Consumed t p) = True"
| "allowed _ = False"

fun reason :: "quota_result \<Rightarrow> string option" where
  "reason (Expired e) = Some ''expired''"
| "reason (TotalExceeded l u) = Some ''total_exceeded''"
| "reason (PeriodExceeded p l u) = Some ''period_exceeded''"
| "reason _ = None"

definition usageToJs :: "usage_entry \<Rightarrow> jsv" where
  "usageToJs u = JObj [(''totalUsed'', JNum (totalUsed u)), (''periodUsed'', JNum (periodUsed u)),
                       (''lastReset'', JNum (lastReset u))]"

text \<open>
  The steps of the check, in the order of the source. Each guard returns what the
  rejection reports when it fires.

  \<open>if (expireAt !== null && Date.now() > expireAt)\<close>
\<close>

definition expiryCheck :: "'d env \<Rightarrow> limit_entry \<Rightarrow> number option" where
  "expiryCheck e lc =
     (case lim_expireAt lc of
        Some expireAt \<Rightarrow> if js_gt (Date_now e) expireAt then Some expireAt else None
      | None \<Rightarrow> None)"

text \<open>\<open>period && periodLimit !== null\<close>: the period and its limit when both are set.\<close>

definition periodConfigured :: "limit_entry \<Rightarrow> (string \<times> number) option" where
  "periodConfigured lc =
     (case (lim_period lc, lim_periodLimit lc) of
        (Some period, Some periodLimit) \<Rightarrow> Some (period, periodLimit)
      | _ \<Rightarrow> None)"

text \<open>The period rollover, on the local usage entry.\<close>

definition periodRollover :: "'d env \<Rightarrow> limit_entry \<Rightarrow> usage_entry \<Rightarrow> usage_entry" where
  "periodRollover e lc u =
     (case periodConfigured lc of
        Some (period, periodLimit) \<Rightarrow>
          (let periodStart = getPeriodStartTimestamp e period in
           if js_lt (lastReset u) periodStart
           then u\<lparr>periodUsed := Finite 0, lastReset := periodStart\<rparr>
           else u)
      | None \<Rightarrow> u)"

text \<open>\<open>if (total !== null && usageEntry.totalUsed >= total)\<close>\<close>

definition totalCheck :: "limit_entry \<Rightarrow> usage_entry \<Rightarrow> number option" where
  "totalCheck lc u =
     (case lim_total lc of
        Some totalLimit \<Rightarrow> if js_ge (totalUsed u) totalLimit then Some totalLimit else None
      | None \<Rightarrow> None)"

text \<open>\<open>if (period && periodLimit !== null && usageEntry.periodUsed >= periodLimit)\<close>\<close>

definition periodCheck :: "limit_entry \<Rightarrow> usage_entry \<Rightarrow> (string \<times> number) option" where
  "periodCheck lc u =
     (case periodConfigured lc of
        Some (period, periodLimit) \<Rightarrow>
          if js_ge (periodUsed u) periodLimit then Some (period, periodLimit) else None
      | None \<Rightarrow> None)"

text \<open>
  The debit: \<open>totalUsed += 1\<close>, and \<open>periodUsed += 1\<close> under a configured period, in the
  arithmetic of doubles.
\<close>

definition debit :: "limit_entry \<Rightarrow> usage_entry \<Rightarrow> usage_entry" where
  "debit lc u =
     (let u1 = u\<lparr>totalUsed := js_add (totalUsed u) (Finite 1)\<rparr> in
      case periodConfigured lc of
        Some pp \<Rightarrow> u1\<lparr>periodUsed := js_add (periodUsed u1) (Finite 1)\<rparr>
      | None \<Rightarrow> u1)"

definition consumeRoutingModelQuota ::
  "'d env \<Rightarrow> 'd gateway \<Rightarrow> string \<Rightarrow> string \<Rightarrow> quota_result \<times> 'd gateway" where
  "consumeRoutingModelQuota e st rid modelId =
     (case getRoutingRouteById (routes st) rid of
        None \<Rightarrow> (Unmetered, st)
      | Some i \<Rightarrow>
          (let route = routes st ! i;
               limitsObj = plainObjectOrEmpty (modelLimits route)
           in case normalizeLimitEntry (Number_str e) (js_get (JObj limitsObj) modelId) of
                None \<Rightarrow> (Unmetered, st)
              | Some limitConfig \<Rightarrow>
                  (let usageObj = plainObjectOrEmpty (modelUsage route);
                       usageEntry = normalizeUsageEntry (Number_str e) (js_get (JObj usageObj) modelId)
                   in case expiryCheck e limitConfig of
                        Some expireAt \<Rightarrow> (Expired expireAt, st)
                      | None \<Rightarrow>
                          (let usageEntry = periodRollover e limitConfig usageEntry in
                           case totalCheck limitConfig usageEntry of
                             Some totalLimit \<Rightarrow> (TotalExceeded totalLimit (totalUsed usageEntry), st)
                           | None \<Rightarrow>
                               (case periodCheck limitConfig usageEntry of
                                  Some (period, periodLimit) \<Rightarrow>
                                    (PeriodExceeded period periodLimit (periodUsed usageEntry), st)
                                | None \<Rightarrow>
                                    (let usageEntry = debit limitConfig usageEntry;
                                         nextUsage = AList.update modelId (usageToJs usageEntry) usageObj;
                                         rs = (routes st)[i := route\<lparr>modelUsage := JObj nextUsage\<rparr>];
                                         d = (case saveConfigJson e rs (disk st) of
                                                Some d' \<Rightarrow> d' | None \<Rightarrow> disk st)
                                     in (Consumed (totalUsed usageEntry) (periodUsed usageEntry),
                                         st\<lparr>routes := rs, disk := d\<rparr>)))))))"

text \<open>
  For the statements below: the raw limit and the raw usage value the check reads for
  a model from the route at position \<open>i\<close>.
\<close>

definition limitValue :: "'d gateway \<Rightarrow> nat \<Rightarrow> string \<Rightarrow> jsv" where
  "limitValue st i modelId = js_get (JObj (plainObjectOrEmpty (modelLimits (routes st ! i)))) modelId"

definition usageValue :: "'d gateway \<Rightarrow> nat \<Rightarrow> string \<Rightarrow> jsv" where
  "usageValue st i modelId = js_get (JObj (plainObjectOrEmpty (modelUsage (routes st ! i)))) modelId"

text \<open>
  The gateway after the commit of the usage entry \<open>u\<close> for a model on the route at
  position \<open>i\<close>: the last statements of the check, named for the statements below.
\<close>

definition committed :: "'d env \<Rightarrow> 'd gateway \<Rightarrow> nat \<Rightarrow> string \<Rightarrow> usage_entry \<Rightarrow> 'd gateway" where
  "committed e st i modelId u =
     (let rs = (routes st)[i := (routes st ! i)\<lparr>modelUsage :=
                 JObj (AList.update modelId (usageToJs u)
                         (plainObjectOrEmpty (modelUsage (routes st ! i))))\<rparr>]
      in st\<lparr>routes := rs,
            disk := (case saveConfigJson e rs (disk st) of Some d' \<Rightarrow> d' | None \<Rightarrow> disk st)\<rparr>)"

text \<open>The gateway with the raw limit of a model on the route at position \<open>j\<close> set to \<open>v\<close>.\<close>

definition withLimit :: "'d gateway \<Rightarrow> nat \<Rightarrow> string \<Rightarrow> jsv \<Rightarrow> 'd gateway" where
  "withLimit st j modelId v =
     st\<lparr>routes := (routes st)[j := (routes st ! j)\<lparr>modelLimits :=
            JObj (AList.update modelId v (plainObjectOrEmpty (modelLimits (routes st ! j))))\<rparr>]\<rparr>"

section \<open>Model admission in the two handlers\<close>

text \<open>JavaScript truthiness, as \<open>!x\<close> and \<open>x || y\<close> read a value.\<close>

fun truthy :: "jsv \<Rightarrow> bool" where
  "truthy JUndefined = False"
| "truthy JNull = False"
| "truthy (JBool b) = b"
| "truthy (JNum n) = (\<not> falsyNumber n)"
| "truthy (JStr s) = (s \<noteq> [])"
| "truthy (JArr xs) = True"
| "truthy (JObj kvs) = True"

text \<open>
  \<open>req.downstreamRoute\<close>, as the authentication middleware of \<open>server/index.js\<close> builds
  it, and the two fields of \<open>req.body\<close> the admission reads.
\<close>

record downstream_route =
  dr_id :: string
  isMaster :: bool
  models :: "string list"
  modelAliases :: "(string \<times> jsv) list"

record chat_body =
  messages :: jsv
  model :: jsv

text \<open>
  What a handler does with a request up to the upstream call: it answers with a status
  and an error message, or it goes on to the upstream with the requested model (echoed
  in the response) and the actual model (sent upstream). The payload builders
  (\<open>utils/errors.js\<close>) are not part of the sources; the outcome keeps the status and the
  message they are given.
\<close>

datatype outcome =
    Respond nat string
  | Upstream string string

definition squote :: string where
  "squote = [CHR 0x27]"

text \<open>\<open>Array.from(new Set(xs))\<close>: the first occurrence of each element, in order.\<close>

fun dedupFirst :: "'a list \<Rightarrow> 'a list \<Rightarrow> 'a list" where
  "dedupFirst seen [] = []"
| "dedupFirst seen (x # xs) =
     (if x \<in> set seen then dedupFirst seen xs else x # dedupFirst (x # seen) xs)"

text \<open>\<open>xs.join(sep)\<close>\<close>

fun joinWith :: "string \<Rightarrow> string list \<Rightarrow> string" where
  "joinWith sep [] = []"
| "joinWith sep [x] = x"
| "joinWith sep (x # y # ys) = x @ sep @ joinWith sep (y # ys)"

text \<open>
  \<open>Array.from(new Set([...allowedActualModels, ...allowedAliasNames])).filter(Boolean).sort()\<close>;
  the default sort compares strings by code unit.
\<close>

definition allowedForClient :: "downstream_route \<Rightarrow> string list" where
  "allowedForClient route =
     sort (filter (\<lambda>s. s \<noteq> [])
       (dedupFirst [] (dedupFirst [] (models route) @ dedupFirst [] (map fst (modelAliases route)))))"

definition notAllowedMessage :: "downstream_route \<Rightarrow> string \<Rightarrow> string" where
  "notAllowedMessage route requestedModel =
     ''Model '' @ squote @ requestedModel @ squote @
     '' is not allowed for this API key. Allowed models: '' @
     joinWith '', '' (allowedForClient route)"

text \<open>
  The alias and allow-list block (\<open>if (route && !route.isMaster) { ... }\<close>): the actual
  model, or the message of the 400 answer.
\<close>

definition resolveModel :: "downstream_route \<Rightarrow> string \<Rightarrow> string + string" where
  "resolveModel route requestedModel =
     (if requestedModel \<in> set (map fst (modelAliases route)) then
        (case map_of (modelAliases route) requestedModel of
           Some (JStr mapped) \<Rightarrow>
             if mapped \<noteq> [] then Inr mapped
             else Inl (''Invalid alias mapping for model: '' @ requestedModel)
         | _ \<Rightarrow> Inl (''Invalid alias mapping for model: '' @ requestedModel))
      else if requestedModel \<in> set (models route) then Inr requestedModel
      else Inl (notAllowedMessage route requestedModel))"

definition periodName :: "string \<Rightarrow> string" where
  "periodName p =
     (if p = ''daily'' then ''Daily'' else if p = ''weekly'' then ''Weekly''
      else if p = ''monthly'' then ''Monthly'' else p)"

text \<open>The message of the 429 answer, by the reason of the rejection.\<close>

fun quotaMessage :: "'d env \<Rightarrow> string \<Rightarrow> quota_result \<Rightarrow> string" where
  "quotaMessage e requestedModel (TotalExceeded totalLimit used) =
     ''Model '' @ squote @ requestedModel @ squote @ '' total quota exceeded. Limit: '' @
     String_num e totalLimit @ '', used: '' @ String_num e used"
| "quotaMessage e requestedModel (PeriodExceeded period periodLimit used) =
     ''Model '' @ squote @ requestedModel @ squote @ '' '' @ periodName period @
     '' quota exceeded. Limit: '' @ String_num e periodLimit @ '', used: '' @ String_num e used"
| "quotaMessage e requestedModel (Expired expireAt) =
     ''Model '' @ squote @ requestedModel @ squote @ '' routing key expired at '' @
     Date_toLocaleString e expireAt"
| "quotaMessage e requestedModel _ =
     ''Model '' @ squote @ requestedModel @ squote @ '' quota exceeded.''"

text \<open>
  The admission of both handlers after the checks of the body: the alias and allow-list
  block, then the quota block, both skipped without a route or under the master route.
\<close>

definition admit ::
  "'d env \<Rightarrow> 'd gateway \<Rightarrow> downstream_route option \<Rightarrow> string \<Rightarrow> outcome \<times> 'd gateway" where
  "admit e st route requestedModel =
     (case route of
        None \<Rightarrow> (Upstream requestedModel requestedModel, st)
      | Some r \<Rightarrow>
          if isMaster r then (Upstream requestedModel requestedModel, st)
          else
            (case resolveModel r requestedModel of
               Inl msg \<Rightarrow> (Respond 400 msg, st)
             | Inr actualModel \<Rightarrow>
                 (case consumeRoutingModelQuota e st (dr_id r) actualModel of
                    (quota, st') \<Rightarrow>
                      if \<not> allowed quota
                      then (Respond 429 (quotaMessage e requestedModel quota), st')
                      else (Upstream requestedModel actualModel, st'))))"

text \<open>\<open>handleClaudeRequest\<close> (server/handlers/claude.js), up to the upstream call.\<close>

definition handleClaudeRequest ::
  "'d env \<Rightarrow> 'd gateway \<Rightarrow> downstream_route option \<Rightarrow> chat_body \<Rightarrow> outcome \<times> 'd gateway" where
  "handleClaudeRequest e st route body =
     (if \<not> truthy (messages body) then (Respond 400 ''messages is required'', st)
      else
        (case model body of
           JStr requestedModel \<Rightarrow>
             if requestedModel = [] then (Respond 400 ''model is required'', st)
             else admit e st route requestedModel
         | _ \<Rightarrow> (Respond 400 ''model is required'', st)))"

text \<open>\<open>handleOpenAIRequest\<close> (server/handlers/openai.js), up to the upstream call.\<close>

definition handleOpenAIRequest ::
  "'d env \<Rightarrow> 'd gateway \<Rightarrow> downstream_route option \<Rightarrow> chat_body \<Rightarrow> outcome \<times> 'd gateway" where
  "handleOpenAIRequest e st route body =
     (if \<not> truthy (messages body) then (Respond 400 ''messages is required'', st)
      else
        (case model body of
           JStr requestedModel \<Rightarrow>
             if requestedModel = [] then (Respond 400 ''model is required'', st)
             else admit e st route requestedModel
         | _ \<Rightarrow> (Respond 400 ''model is required'', st)))"

section \<open>Provider dispatch (providers/base.js, providers/index.js)\<close>

record provider =
  name :: string
  enabled :: bool
  initialized :: bool
  priority :: int
  supportedModels :: "string list"

text \<open>\<open>model.startsWith(prefix)\<close> and \<open>pattern.endsWith('*')\<close>\<close>

definition startsWith :: "string \<Rightarrow> string \<Rightarrow> bool" where
  "startsWith s p = (take (length p) s = p)"

definition endsWithStar :: "string \<Rightarrow> bool" where
  "endsWithStar pattern = (pattern \<noteq> [] \<and> last pattern = CHR ''*'')"

text \<open>The wildcard test of both \<open>supportsModel\<close> and \<open>selectProvider\<close>.\<close>

definition wildcardMatches :: "string \<Rightarrow> string \<Rightarrow> bool" where
  "wildcardMatches pattern m = (endsWithStar pattern \<and> startsWith m (butlast pattern))"

text \<open>\<open>BaseProvider.supportsModel\<close>; no provider of the repository overrides it.\<close>

definition supportsModel :: "provider \<Rightarrow> string \<Rightarrow> bool" where
  "supportsModel p m =
     (if m = [] then False
      else if m \<in> set (supportedModels p) then True
      else list_ex (\<lambda>pattern. wildcardMatches pattern m) (supportedModels p))"

text \<open>
  The manager: \<open>providers\<close> and \<open>modelProviderMapping\<close> are JavaScript maps, which keep
  their keys in insertion order.
\<close>

record provider_manager =
  providers :: "(string \<times> provider) list"
  modelProviderMapping :: "(string \<times> string list) list"

text \<open>
  The inner loop of steps 1 and 2: the first listed name whose provider is registered,
  enabled and initialized.
\<close>

fun firstUsable :: "(string \<times> provider) list \<Rightarrow> string list \<Rightarrow> provider option" where
  "firstUsable ps [] = None"
| "firstUsable ps (n # ns) =
     (case map_of ps n of
        Some p \<Rightarrow> if enabled p \<and> initialized p then Some p else firstUsable ps ns
      | None \<Rightarrow> firstUsable ps ns)"

text \<open>Step 2: the loop over the entries of the mapping.\<close>

fun wildcardLoop ::
  "(string \<times> provider) list \<Rightarrow> string \<Rightarrow> (string \<times> string list) list \<Rightarrow> provider option" where
  "wildcardLoop ps m [] = None"
| "wildcardLoop ps m ((pattern, providerNames) # rest) =
     (if wildcardMatches pattern m then
        (case firstUsable ps providerNames of
           Some p \<Rightarrow> Some p
         | None \<Rightarrow> wildcardLoop ps m rest)
      else wildcardLoop ps m rest)"

text \<open>\<open>getEnabledProviders\<close>; \<open>Array.prototype.sort\<close> is stable, as \<open>sort_key\<close> is.\<close>

definition getEnabledProviders :: "provider_manager \<Rightarrow> provider list" where
  "getEnabledProviders pm =
     sort_key priority (filter (\<lambda>p. enabled p \<and> initialized p) (map snd (providers pm)))"

text \<open>Step 3: the scan of the enabled providers.\<close>

fun supportLoop :: "string \<Rightarrow> provider list \<Rightarrow> provider option" where
  "supportLoop m [] = None"
| "supportLoop m (p # ps) = (if supportsModel p m then Some p else supportLoop m ps)"

definition selectProvider :: "provider_manager \<Rightarrow> string \<Rightarrow> provider option" where
  "selectProvider pm m =
     (if m = [] then None
      else
        (case (case map_of (modelProviderMapping pm) m of
                 Some providerNames \<Rightarrow> firstUsable (providers pm) providerNames
               | None \<Rightarrow> None) of
           Some p \<Rightarrow> Some p
         | None \<Rightarrow>
             (case wildcardLoop (providers pm) m (modelProviderMapping pm) of
                Some p \<Rightarrow> Some p
              | None \<Rightarrow>
                  (let enabledProviders = getEnabledProviders pm in
                   case supportLoop m enabledProviders of
                     Some p \<Rightarrow> Some p
                   | None \<Rightarrow>
                       (case enabledProviders of
                          [] \<Rightarrow> None
                        | p # rest \<Rightarrow> Some p)))))"

subsection \<open>The selection rules in the words of the specification\<close>

text \<open>
  A second definition of the selection, after the four rules of the specification and
  not after the loops of the code, to compare \<open>selectProvider\<close> with: a provider name is
  usable when it names a registered provider that is enabled and initialized; rule 1
  takes the first usable name of the exact entry of the model; rule 2 the first usable
  name of the first trailing-wildcard entry that matches the model by prefix and lists
  a usable name; rule 3 the first provider in ascending priority order that supports
  the model; rule 4 the first provider in that order.
\<close>

definition usable :: "provider_manager \<Rightarrow> string \<Rightarrow> bool" where
  "usable pm n = (case map_of (providers pm) n of Some p \<Rightarrow> enabled p \<and> initialized p | None \<Rightarrow> False)"

definition firstUsableName :: "provider_manager \<Rightarrow> string list \<Rightarrow> provider option" where
  "firstUsableName pm names =
     (case find (usable pm) names of Some n \<Rightarrow> map_of (providers pm) n | None \<Rightarrow> None)"

definition rule_exact :: "provider_manager \<Rightarrow> string \<Rightarrow> provider option" where
  "rule_exact pm m =
     (case map_of (modelProviderMapping pm) m of
        Some names \<Rightarrow> firstUsableName pm names
      | None \<Rightarrow> None)"

definition rule_wildcard :: "provider_manager \<Rightarrow> string \<Rightarrow> provider option" where
  "rule_wildcard pm m =
     (case find (\<lambda>(pattern, names). wildcardMatches pattern m \<and> list_ex (usable pm) names)
             (modelProviderMapping pm) of
        Some (pattern, names) \<Rightarrow> firstUsableName pm names
      | None \<Rightarrow> None)"

definition rule_scan :: "provider_manager \<Rightarrow> string \<Rightarrow> provider option" where
  "rule_scan pm m = find (\<lambda>p. supportsModel p m) (getEnabledProviders pm)"

definition rule_fallback :: "provider_manager \<Rightarrow> provider option" where
  "rule_fallback pm = (case getEnabledProviders pm of [] \<Rightarrow> None | p # rest \<Rightarrow> Some p)"

definition selectProvider_rules :: "provider_manager \<Rightarrow> string \<Rightarrow> provider option" where
  "selectProvider_rules pm m =
     (case rule_exact pm m of
        Some p \<Rightarrow> Some p
      | None \<Rightarrow>
          (case rule_wildcard pm m of
             Some p \<Rightarrow> Some p
           | None \<Rightarrow>
               (case rule_scan pm m of
                  Some p \<Rightarrow> Some p
                | None \<Rightarrow> rule_fallback pm)))"

section \<open>Credential stores\<close>

text \<open>
  What \<open>getToken\<close> gives back: \<open>null\<close>, an account, or a thrown error.
\<close>

datatype token_error =
    NoRefreshToken
  | RefreshRequestFailed
  | InvalidRefreshResponse
  | DateOutOfRange
  | SaveFailed

datatype 'a got =
    NoToken
  | Token 'a
  | Failed token_error

text \<open>
  \<open>this.accounts.filter(a => a.enable !== false)\<close> by position: the filter keeps the
  account objects themselves, so a refresh of a selected account changes
  \<open>this.accounts\<close> at the position the account has there.
\<close>

definition enabledPositions :: "('a \<Rightarrow> bool option) \<Rightarrow> 'a list \<Rightarrow> nat list" where
  "enabledPositions en accs = filter (\<lambda>i. en (accs ! i) \<noteq> Some False) [0..<length accs]"

subsection \<open>Codex (CodexTokenManager)\<close>

text \<open>
  The fields of a Codex account that selection and refresh read or write. A string
  field is empty when the property is absent; \<open>enable\<close> and \<open>expires_at\<close> are \<open>None\<close>
  when absent.
\<close>

record codex_account =
  cx_id :: string
  cx_email :: string
  cx_enable :: "bool option"
  auth_type :: string
  access_token :: string
  refresh_token :: string
  expires_at :: "number option"
  chatgpt_account_id :: string

text \<open>\<open>CODEX_CONSTANTS\<close> (constants/kiro.js)\<close>

definition TOKEN_REFRESH_BUFFER :: number where
  "TOKEN_REFRESH_BUFFER = Finite (10 * 60 * 1000)"

definition AUTH_TYPE_OAUTH :: string where
  "AUTH_TYPE_OAUTH = ''oauth''"

definition AUTH_TYPE_API_KEY :: string where
  "AUTH_TYPE_API_KEY = ''api_key''"

text \<open>\<open>response.data\<close> of the token endpoint; \<open>rs_expires_in\<close> is \<open>None\<close> unless a number.\<close>

record codex_token_response =
  rs_access_token :: string
  rs_refresh_token :: string
  rs_expires_in :: "number option"

text \<open>
  The world a Codex store runs in. Every call of \<open>getToken\<close> that finds an enabled
  account advances \<open>currentIndex\<close> by one, so the value \<open>k\<close> of \<open>currentIndex\<close> at its
  selection names the call: \<open>cw_now k\<close> is \<open>Date.now()\<close> in its expiry test,
  \<open>cw_post k\<close> the answer of the token endpoint to the refresh token posted (\<open>None\<close>: the
  request throws), \<open>cw_now_after k\<close> is \<open>Date.now()\<close> when the answer is stored, and
  \<open>cw_save_ok k\<close> says whether writing the accounts file succeeds. The two JWT readers
  give the empty string for \<open>null\<close>.
\<close>

record codex_world =
  cw_now :: "nat \<Rightarrow> number"
  cw_post :: "nat \<Rightarrow> string \<Rightarrow> codex_token_response option"
  cw_now_after :: "nat \<Rightarrow> number"
  cw_save_ok :: "nat \<Rightarrow> bool"
  cw_extractAccountId :: "string \<Rightarrow> string"
  cw_extractEmail :: "string \<Rightarrow> string"

text \<open>
  The store: the accounts in memory, the rotation index, the accounts file, and the
  refresh tokens posted to the token endpoint so far (the trace of its network effect).
\<close>

record codex_manager =
  cx_accounts :: "codex_account list"
  cx_currentIndex :: nat
  cx_file :: "codex_account list"
  cx_posted :: "string list"

definition codex_isExpired :: "number \<Rightarrow> codex_account \<Rightarrow> bool" where
  "codex_isExpired now account =
     (if auth_type account = AUTH_TYPE_API_KEY then False
      else
        (case expires_at account of
           None \<Rightarrow> False
         | Some ea \<Rightarrow>
             if falsyNumber ea then False else js_ge now (js_sub ea TOKEN_REFRESH_BUFFER)))"

text \<open>
  \<open>refreshToken(account)\<close> for the account at position \<open>pos\<close>, in the call named \<open>k\<close>.
  The account is updated in place before \<open>save()\<close>, so a failed save leaves the new
  tokens in memory.
\<close>

definition codex_refreshToken ::
  "codex_world \<Rightarrow> nat \<Rightarrow> codex_manager \<Rightarrow> nat \<Rightarrow> (token_error + codex_account) \<times> codex_manager" where
  "codex_refreshToken w k st pos =
     (let account = cx_accounts st ! pos in
      if auth_type account = AUTH_TYPE_API_KEY then (Inr account, st)
      else if refresh_token account = [] then (Inl NoRefreshToken, st)
      else
        (let st1 = st\<lparr>cx_posted := cx_posted st @ [refresh_token account]\<rparr> in
         case cw_post w k (refresh_token account) of
           None \<Rightarrow> (Inl RefreshRequestFailed, st1)
         | Some resp \<Rightarrow>
             (case rs_expires_in resp of
                None \<Rightarrow> (Inl InvalidRefreshResponse, st1)
              | Some expires_in \<Rightarrow>
                  if rs_access_token resp = [] \<or> rs_refresh_token resp = []
                  then (Inl InvalidRefreshResponse, st1)
                  else
                    (let a1 = account\<lparr>access_token := rs_access_token resp,
                                       refresh_token := rs_refresh_token resp,
                                       expires_at := Some (js_add (cw_now_after w k)
                                                             (js_mul expires_in (Finite 1000)))\<rparr>;
                         chatgptAccountId = cw_extractAccountId w (rs_access_token resp);
                         a2 = (if chatgptAccountId \<noteq> []
                               then a1\<lparr>chatgpt_account_id := chatgptAccountId\<rparr> else a1);
                         email = cw_extractEmail w (rs_access_token resp);
                         a3 = (if cx_email a2 = [] \<and> email \<noteq> []
                               then a2\<lparr>cx_email := email\<rparr> else a2);
                         st2 = st1\<lparr>cx_accounts := (cx_accounts st1)[pos := a3]\<rparr>
                     in if cw_save_ok w k then (Inr a3, st2\<lparr>cx_file := cx_accounts st2\<rparr>)
                        else (Inl SaveFailed, st2)))))"

text \<open>
  \<open>getToken()\<close>. The retry after a failed refresh is a recursive call with no bound in
  the source; the model runs it on fuel, and \<open>None\<close> says the fuel ran out.
\<close>

fun codex_getToken ::
  "nat \<Rightarrow> codex_world \<Rightarrow> codex_manager \<Rightarrow> (codex_account got \<times> codex_manager) option" where
  "codex_getToken 0 w st = None"
| "codex_getToken (Suc fuel) w st =
     (let enabledAccounts = enabledPositions cx_enable (cx_accounts st) in
      if length enabledAccounts = 0 then Some (NoToken, st)
      else
        (let k = cx_currentIndex st;
             index = k mod length enabledAccounts;
             st1 = st\<lparr>cx_currentIndex := k + 1\<rparr>;
             pos = enabledAccounts ! index;
             account = cx_accounts st1 ! pos
         in if auth_type account = AUTH_TYPE_OAUTH \<and> codex_isExpired (cw_now w k) account then
              (case codex_refreshToken w k st1 pos of
                 (Inr refreshed, st2) \<Rightarrow> Some (Token refreshed, st2)
               | (Inl err, st2) \<Rightarrow>
                   if length enabledAccounts > 1 then codex_getToken fuel w st2
                   else Some (Failed err, st2))
            else Some (Token account, st1)))"

text \<open>\<open>n\<close> calls of \<open>getToken()\<close> one after the other; a thrown error ends no later call.\<close>

fun codex_getTokens ::
  "nat \<Rightarrow> codex_world \<Rightarrow> codex_manager \<Rightarrow> nat \<Rightarrow> (codex_account got list \<times> codex_manager) option" where
  "codex_getTokens fuel w st 0 = Some ([], st)"
| "codex_getTokens fuel w st (Suc n) =
     (case codex_getToken fuel w st of
        None \<Rightarrow> None
      | Some (r, st1) \<Rightarrow>
          (case codex_getTokens fuel w st1 n of
             None \<Rightarrow> None
           | Some (rs, st2) \<Rightarrow> Some (r # rs, st2)))"

subsection \<open>Kiro (KiroTokenManager)\<close>

text \<open>
  \<open>account.expiresAt\<close> is stored as an ISO date string. The model keeps what
  \<open>new Date(account.expiresAt).getTime()\<close> reads from it: no value (the property is
  absent or empty), an instant in milliseconds, or \<open>NaN\<close> for a string that is no date.
\<close>

datatype kiro_expiry =
    NoExpiry
  | Instant number
  | InvalidDate

record kiro_account =
  kr_id :: string
  kr_email :: string
  kr_enable :: "bool option"
  accessToken :: string
  refreshToken :: string
  profileArn :: string
  expiresAt :: kiro_expiry
  region :: string
  authMethod :: string
  clientId :: string
  clientSecret :: string

text \<open>\<open>KIRO_CONSTANTS\<close> (constants/kiro.js)\<close>

definition DEFAULT_REGION :: string where
  "DEFAULT_REGION = ''us-east-1''"

definition AUTH_METHOD_SOCIAL :: string where
  "AUTH_METHOD_SOCIAL = ''social''"

text \<open>
  \<open>template.replace('{{region}}', region)\<close> with a string pattern replaces the first
  occurrence of the pattern by the expansion of the replacement string, in which \<open>$$\<close>
  stands for \<open>$\<close>, \<open>$&\<close> for the matched text, \<open>$\<close> with a backquote for the text before
  the match and \<open>$\<close> with a quote for the text after it; without captures every other
  \<open>$\<close> stands for itself.
\<close>

fun expandReplacement :: "string \<Rightarrow> string \<Rightarrow> string \<Rightarrow> string \<Rightarrow> string" where
  "expandReplacement matched before after [] = []"
| "expandReplacement matched before after [c] = [c]"
| "expandReplacement matched before after (c # d # cs) =
     (if c = CHR ''$'' \<and> d = CHR ''$'' then CHR ''$'' # expandReplacement matched before after cs
      else if c = CHR ''$'' \<and> d = CHR ''&'' then matched @ expandReplacement matched before after cs
      else if c = CHR ''$'' \<and> d = CHR 0x60 then before @ expandReplacement matched before after cs
      else if c = CHR ''$'' \<and> d = CHR 0x27 then after @ expandReplacement matched before after cs
      else c # expandReplacement matched before after (d # cs))"

text \<open>A URL template \<open>before{{region}}after\<close> with the region filled in.\<close>

definition replaceRegion :: "string \<Rightarrow> string \<Rightarrow> string \<Rightarrow> string" where
  "replaceRegion before after rg =
     before @ expandReplacement ''{{region}}'' before after rg @ after"

text \<open>
  The refresh request: \<open>REFRESH_URL\<close> or \<open>REFRESH_IDC_URL\<close> with the region filled in, and
  the body.
\<close>

record kiro_request =
  rq_url :: string
  rq_refreshToken :: string
  rq_client :: "(string \<times> string) option"

record kiro_response =
  kp_accessToken :: string
  kp_refreshToken :: string
  kp_profileArn :: string
  kp_expiresIn :: "number option"

record kiro_world =
  kw_now :: "nat \<Rightarrow> number"
  kw_post :: "nat \<Rightarrow> kiro_request \<Rightarrow> kiro_response option"
  kw_now_after :: "nat \<Rightarrow> number"
  kw_save_ok :: "nat \<Rightarrow> bool"

record kiro_manager =
  kr_accounts :: "kiro_account list"
  kr_currentIndex :: nat
  kr_file :: "kiro_account list"
  kr_posted :: "kiro_request list"

definition kiro_isExpired :: "number \<Rightarrow> kiro_account \<Rightarrow> bool" where
  "kiro_isExpired now account =
     (case expiresAt account of
        NoExpiry \<Rightarrow> False
      | InvalidDate \<Rightarrow> False
      | Instant ea \<Rightarrow> js_ge now (js_sub ea (Finite (10 * 60 * 1000))))"

definition kiro_refreshRequest :: "kiro_account \<Rightarrow> kiro_request" where
  "kiro_refreshRequest account =
     (let rg = (if region account \<noteq> [] then region account else DEFAULT_REGION);
          am = (if authMethod account \<noteq> [] then authMethod account else AUTH_METHOD_SOCIAL)
      in if am = AUTH_METHOD_SOCIAL
         then \<lparr>rq_url = replaceRegion ''https://prod.'' ''.auth.desktop.kiro.dev/refreshToken'' rg,
               rq_refreshToken = refreshToken account, rq_client = None\<rparr>
         else \<lparr>rq_url = replaceRegion ''https://oidc.'' ''.amazonaws.com/token'' rg,
               rq_refreshToken = refreshToken account,
               rq_client = Some (clientId account, clientSecret account)\<rparr>)"

text \<open>
  \<open>new Date(t).toISOString()\<close>: a time value that is not finite or lies outside the range
  of dates makes an invalid date, on which \<open>toISOString\<close> throws; otherwise the time
  value is cut to whole milliseconds.
\<close>

definition toISOInstant :: "number \<Rightarrow> number option" where
  "toISOInstant t =
     (case t of
        Finite q \<Rightarrow>
          if 8640000000000000 < \<bar>q\<bar> then None
          else Some (Finite (if 0 \<le> q then of_int \<lfloor>q\<rfloor> else of_int \<lceil>q\<rceil>))
      | _ \<Rightarrow> None)"

text \<open>\<open>response.data.expiresIn || 3600\<close>\<close>

definition expiresInOrDefault :: "kiro_response \<Rightarrow> number" where
  "expiresInOrDefault resp =
     (case kp_expiresIn resp of
        None \<Rightarrow> Finite 3600
      | Some x \<Rightarrow> if falsyNumber x then Finite 3600 else x)"

definition kiro_refreshToken ::
  "kiro_world \<Rightarrow> nat \<Rightarrow> kiro_manager \<Rightarrow> nat \<Rightarrow> (token_error + kiro_account) \<times> kiro_manager" where
  "kiro_refreshToken w k st pos =
     (let account = kr_accounts st ! pos in
      if refreshToken account = [] then (Inl NoRefreshToken, st)
      else
        (let request = kiro_refreshRequest account;
             st1 = st\<lparr>kr_posted := kr_posted st @ [request]\<rparr>
         in case kw_post w k request of
              None \<Rightarrow> (Inl RefreshRequestFailed, st1)
            | Some resp \<Rightarrow>
                if kp_accessToken resp = [] then (Inl InvalidRefreshResponse, st1)
                else
                  (let a1 = account\<lparr>
                         accessToken := kp_accessToken resp,
                         refreshToken := (if kp_refreshToken resp \<noteq> []
                                          then kp_refreshToken resp else refreshToken account),
                         profileArn := (if kp_profileArn resp \<noteq> []
                                        then kp_profileArn resp else profileArn account)\<rparr>;
                       expiresIn = expiresInOrDefault resp
                   in case toISOInstant (js_add (kw_now_after w k)
                                           (js_mul expiresIn (Finite 1000))) of
                        None \<Rightarrow>
                          (Inl DateOutOfRange,
                           st1\<lparr>kr_accounts := (kr_accounts st1)[pos := a1]\<rparr>)
                      | Some t \<Rightarrow>
                          (let a2 = a1\<lparr>expiresAt := Instant t\<rparr>;
                               st2 = st1\<lparr>kr_accounts := (kr_accounts st1)[pos := a2]\<rparr>
                           in if kw_save_ok w k then (Inr a2, st2\<lparr>kr_file := kr_accounts st2\<rparr>)
                              else (Inl SaveFailed, st2)))))"

fun kiro_getToken ::
  "nat \<Rightarrow> kiro_world \<Rightarrow> kiro_manager \<Rightarrow> (kiro_account got \<times> kiro_manager) option" where
  "kiro_getToken 0 w st = None"
| "kiro_getToken (Suc fuel) w st =
     (let enabledAccounts = enabledPositions kr_enable (kr_accounts st) in
      if length enabledAccounts = 0 then Some (NoToken, st)
      else
        (let k = kr_currentIndex st;
             index = k mod length enabledAccounts;
             st1 = st\<lparr>kr_currentIndex := k + 1\<rparr>;
             pos = enabledAccounts ! index;
             account = kr_accounts st1 ! pos
         in if kiro_isExpired (kw_now w k) account then
              (case kiro_refreshToken w k st1 pos of
                 (Inr refreshed, st2) \<Rightarrow> Some (Token (kr_accounts st2 ! pos), st2)
               | (Inl err, st2) \<Rightarrow>
                   if length enabledAccounts > 1 then kiro_getToken fuel w st2
                   else Some (Failed err, st2))
            else Some (Token account, st1)))"

fun kiro_getTokens ::
  "nat \<Rightarrow> kiro_world \<Rightarrow> kiro_manager \<Rightarrow> nat \<Rightarrow> (kiro_account got list \<times> kiro_manager) option" where
  "kiro_getTokens fuel w st 0 = Some ([], st)"
| "kiro_getTokens fuel w st (Suc n) =
     (case kiro_getToken fuel w st of
        None \<Rightarrow> None
      | Some (r, st1) \<Rightarrow>
          (case kiro_getTokens fuel w st1 n of
             None \<Rightarrow> None
           | Some (rs, st2) \<Rightarrow> Some (r # rs, st2)))"

subsection \<open>Antigravity (auth/token_manager.js)\<close>

text \<open>
  Modelled from the spec: the credential store of the Antigravity provider. Both
  handlers and \<open>providers/antigravity.js\<close> call \<open>getToken()\<close> of \<open>auth/token_manager.js\<close>,
  which is not among the sources. The definitions below follow the contract of the
  specification (Credential Store): an account holds access material, an optional
  expiry instant and an \<open>enabled\<close> flag; selection is round-robin over the accounts with
  \<open>enabled != false\<close>, by a shared index that only grows, taken modulo the number of
  enabled accounts; before a selected account is returned, staleness is computed as
  \<open>now >= expiresAt - refreshBuffer\<close> and a stale account is refreshed synchronously
  before it is returned; on a refresh error the store selects again when more than one
  account is enabled; a credential without a refresh token is never expired and is not
  refreshed; an account is mutated in place on refresh, and every successful refresh
  persists the whole account list before returning. What a refresh gives
  (\<open>sw_refresh\<close>, \<open>None\<close> for an error), the clock and the buffer are left open.
\<close>

record spec_account =
  sa_enabled :: "bool option"
  sa_expiresAt :: "number option"
  sa_accessToken :: string
  sa_refreshToken :: string

record spec_world =
  sw_now :: "nat \<Rightarrow> number"
  sw_refreshBuffer :: number
  sw_refresh :: "nat \<Rightarrow> spec_account \<Rightarrow> spec_account option"

record spec_manager =
  sm_accounts :: "spec_account list"
  sm_currentIndex :: nat
  sm_file :: "spec_account list"

definition spec_isExpired :: "spec_world \<Rightarrow> number \<Rightarrow> spec_account \<Rightarrow> bool" where
  "spec_isExpired w now account =
     (if sa_refreshToken account = [] then False
      else
        (case sa_expiresAt account of
           None \<Rightarrow> False
         | Some ea \<Rightarrow> js_ge now (js_sub ea (sw_refreshBuffer w))))"

fun spec_getToken ::
  "nat \<Rightarrow> spec_world \<Rightarrow> spec_manager \<Rightarrow> (spec_account got \<times> spec_manager) option" where
  "spec_getToken 0 w st = None"
| "spec_getToken (Suc fuel) w st =
     (let enabledAccounts = enabledPositions sa_enabled (sm_accounts st) in
      if length enabledAccounts = 0 then Some (NoToken, st)
      else
        (let k = sm_currentIndex st;
             index = k mod length enabledAccounts;
             st1 = st\<lparr>sm_currentIndex := k + 1\<rparr>;
             pos = enabledAccounts ! index;
             account = sm_accounts st1 ! pos
         in if spec_isExpired w (sw_now w k) account then
              (case sw_refresh w k account of
                 Some refreshed \<Rightarrow>
                   (let accs = (sm_accounts st1)[pos := refreshed]
                    in Some (Token refreshed, st1\<lparr>sm_accounts := accs, sm_file := accs\<rparr>))
               | None \<Rightarrow>
                   if length enabledAccounts > 1 then spec_getToken fuel w st1
                   else Some (Failed RefreshRequestFailed, st1))
            else Some (Token account, st1)))"

subsection \<open>For the statements about the stores\<close>

text \<open>
  The list \<open>this.accounts.filter(a => a.enable !== false)\<close> itself, and the test under
  which the Codex \<open>getToken\<close> refreshes the selected account.
\<close>

definition enabledAccounts :: "('a \<Rightarrow> bool option) \<Rightarrow> 'a list \<Rightarrow> 'a list" where
  "enabledAccounts en accs = filter (\<lambda>a. en a \<noteq> Some False) accs"

definition codex_needsRefresh :: "number \<Rightarrow> codex_account \<Rightarrow> bool" where
  "codex_needsRefresh now a = (auth_type a = AUTH_TYPE_OAUTH \<and> codex_isExpired now a)"

text \<open>
  \<open>r\<close> is what a completed refresh of the account \<open>a\<close> in the call \<open>k\<close> leaves: \<open>a\<close> holds
  a refresh token, the token endpoint answered the post of it with the fields the
  store asks for, the accounts file was written, and \<open>r\<close> carries the tokens and the
  expiry of the answer.
\<close>

definition codex_refreshedBy :: "codex_world \<Rightarrow> nat \<Rightarrow> codex_account \<Rightarrow> codex_account \<Rightarrow> bool" where
  "codex_refreshedBy w k a r =
     (refresh_token a \<noteq> [] \<and> cw_save_ok w k \<and>
      (case cw_post w k (refresh_token a) of
         None \<Rightarrow> False
       | Some resp \<Rightarrow>
           (case rs_expires_in resp of
              None \<Rightarrow> False
            | Some expires_in \<Rightarrow>
                rs_access_token resp \<noteq> [] \<and> rs_refresh_token resp \<noteq> [] \<and>
                access_token r = rs_access_token resp \<and>
                refresh_token r = rs_refresh_token resp \<and>
                expires_at r = Some (js_add (cw_now_after w k) (js_mul expires_in (Finite 1000))))))"

definition kiro_refreshedBy :: "kiro_world \<Rightarrow> nat \<Rightarrow> kiro_account \<Rightarrow> kiro_account \<Rightarrow> bool" where
  "kiro_refreshedBy w k a r =
     (refreshToken a \<noteq> [] \<and> kw_save_ok w k \<and>
      (case kw_post w k (kiro_refreshRequest a) of
         None \<Rightarrow> False
       | Some resp \<Rightarrow>
           kp_accessToken resp \<noteq> [] \<and> accessToken r = kp_accessToken resp \<and>
           (case toISOInstant (js_add (kw_now_after w k)
                                 (js_mul (expiresInOrDefault resp) (Finite 1000))) of
              None \<Rightarrow> False
            | Some t \<Rightarrow> expiresAt r = Instant t)))"

section \<open>The Claude wire format (server/handlers/claude.js)\<close>

text \<open>A tool call of the upstream; \<open>tc_thoughtSignature\<close> is empty when absent.\<close>

record tool_call =
  tc_id :: string
  tc_name :: string
  tc_arguments :: string
  tc_thoughtSignature :: string

datatype content_block =
    ThinkingBlock string "string option"
  | TextBlock string
  | ToolUseBlock string string jsv "string option"

text \<open>
  The translator reads two things from outside: \<open>config.passSignatureToClient\<close> and the
  built-in \<open>JSON.parse\<close> (\<open>None\<close>: it throws) with \<open>JSON.stringify\<close>.
\<close>

record json_env =
  passSignatureToClient :: bool
  JSON_parse :: "string \<Rightarrow> jsv option"
  JSON_stringify :: "jsv \<Rightarrow> string"

text \<open>\<open>sig && config.passSignatureToClient\<close>: the signature that is passed on.\<close>

definition passedSignature :: "json_env \<Rightarrow> string \<Rightarrow> string option" where
  "passedSignature j sg = (if sg \<noteq> [] \<and> passSignatureToClient j then Some sg else None)"

subsection \<open>The response without streaming\<close>

record claude_usage =
  input_tokens :: number
  output_tokens :: number

record claude_response =
  cr_id :: string
  cr_content :: "content_block list"
  cr_model :: string
  cr_stop_reason :: string
  cr_usage :: claude_usage

text \<open>The body of the loop over \<open>toolCalls\<close>: the \<open>try\<close> block, and its \<open>catch\<close>.\<close>

definition toolUseBlock :: "json_env \<Rightarrow> tool_call \<Rightarrow> content_block" where
  "toolUseBlock j tc =
     (case JSON_parse j (tc_arguments tc) of
        Some input \<Rightarrow>
          ToolUseBlock (tc_id tc) (tc_name tc) input (passedSignature j (tc_thoughtSignature tc))
      | None \<Rightarrow> ToolUseBlock (tc_id tc) (tc_name tc) (JObj []) None)"

text \<open>
  \<open>createClaudeResponse\<close>; \<open>usage\<close> is \<open>None\<close> for \<open>null\<close>, and holds \<open>prompt_tokens || 0\<close>
  and \<open>completion_tokens || 0\<close> otherwise.
\<close>

definition createClaudeResponse ::
  "json_env \<Rightarrow> string \<Rightarrow> string \<Rightarrow> string \<Rightarrow> string \<Rightarrow> string \<Rightarrow> tool_call list \<Rightarrow> string \<Rightarrow>
   (number \<times> number) option \<Rightarrow> claude_response" where
  "createClaudeResponse j ident mdl content reasoning reasoningSignature toolCalls stopReason usage =
     (let thinking = (if reasoning \<noteq> []
                      then [ThinkingBlock reasoning (passedSignature j reasoningSignature)] else []);
          text = (if content \<noteq> [] then [TextBlock content] else []);
          tools = map (toolUseBlock j) toolCalls
      in \<lparr>cr_id = ident, cr_content = thinking @ text @ tools, cr_model = mdl,
          cr_stop_reason = stopReason,
          cr_usage = (case usage of
                        Some (prompt_tokens, completion_tokens) \<Rightarrow>
                          \<lparr>input_tokens = prompt_tokens, output_tokens = completion_tokens\<rparr>
                      | None \<Rightarrow> \<lparr>input_tokens = Finite 0, output_tokens = Finite 0\<rparr>)\<rparr>)"

subsection \<open>The streaming translator\<close>

text \<open>
  What the upstream hands to the callback of \<open>generateAssistantResponse\<close>: a usage
  record (its \<open>completion_tokens || 0\<close>), a reasoning delta with its signature (empty when
  absent), a batch of tool calls, or anything else, which is read as text
  (\<open>data.content || ''\<close>).
\<close>

datatype upstream_event =
    UsageEvent number
  | ReasoningEvent string string
  | ToolCallsEvent "tool_call list"
  | ContentEvent string

datatype block_delta =
    ThinkingDelta string "string option"
  | TextDelta string
  | InputJsonDelta string

datatype claude_event =
    MessageStart string string
  | ContentBlockStart nat content_block
  | ContentBlockDelta nat block_delta
  | ContentBlockStop nat
  | MessageDelta string number
  | MessageStop

datatype block_type = Thinking | Text

text \<open>The variables the callback closes over.\<close>

record stream_state =
  contentIndex :: nat
  usageData :: "number option"
  hasToolCall :: bool
  currentBlockType :: "block_type option"
  reasoningSent :: bool

definition initialStream :: stream_state where
  "initialStream = \<lparr>contentIndex = 0, usageData = None, hasToolCall = False,
                     currentBlockType = None, reasoningSent = False\<rparr>"

text \<open>
  The body of the loop over \<open>data.tool_calls\<close>: the events written for one tool call and
  the index after it. When \<open>JSON.parse\<close> throws, nothing has been written yet and the
  \<open>catch\<close> block is empty.
\<close>

fun toolCallEvents :: "json_env \<Rightarrow> nat \<Rightarrow> tool_call list \<Rightarrow> claude_event list \<times> nat" where
  "toolCallEvents j i [] = ([], i)"
| "toolCallEvents j i (tc # tcs) =
     (case JSON_parse j (tc_arguments tc) of
        Some input \<Rightarrow>
          (case toolCallEvents j (i + 1) tcs of
             (evs, i') \<Rightarrow>
               ([ContentBlockStart i
                   (ToolUseBlock (tc_id tc) (tc_name tc) input
                      (passedSignature j (tc_thoughtSignature tc))),
                 ContentBlockDelta i (InputJsonDelta (JSON_stringify j input)),
                 ContentBlockStop i] @ evs, i'))
      | None \<Rightarrow> toolCallEvents j i tcs)"

text \<open>The callback: the events it writes and the variables after it.\<close>

fun onData :: "json_env \<Rightarrow> stream_state \<Rightarrow> upstream_event \<Rightarrow> claude_event list \<times> stream_state" where
  "onData j s (UsageEvent u) = ([], s\<lparr>usageData := Some u\<rparr>)"
| "onData j s (ReasoningEvent reasoning_content thoughtSignature) =
     (let opening =
            (if \<not> reasoningSent s
             then [ContentBlockStart (contentIndex s)
                     (ThinkingBlock [] (passedSignature j thoughtSignature))]
             else []);
          s1 = (if \<not> reasoningSent s
                then s\<lparr>currentBlockType := Some Thinking, reasoningSent := True\<rparr> else s)
      in (opening @
          [ContentBlockDelta (contentIndex s1)
             (ThinkingDelta reasoning_content (passedSignature j thoughtSignature))], s1))"
| "onData j s (ToolCallsEvent tool_calls) =
     (let s1 = s\<lparr>hasToolCall := True\<rparr>;
          closing = (if currentBlockType s1 \<noteq> None then [ContentBlockStop (contentIndex s1)] else []);
          i = (if currentBlockType s1 \<noteq> None then contentIndex s1 + 1 else contentIndex s1)
      in case toolCallEvents j i tool_calls of
           (evs, i') \<Rightarrow> (closing @ evs, s1\<lparr>contentIndex := i', currentBlockType := None\<rparr>))"
| "onData j s (ContentEvent content) =
     (let closing = (if currentBlockType s = Some Thinking
                     then [ContentBlockStop (contentIndex s)] else []);
          s1 = (if currentBlockType s = Some Thinking
                then s\<lparr>contentIndex := contentIndex s + 1, currentBlockType := None\<rparr> else s);
          opening = (if currentBlockType s1 \<noteq> Some Text
                     then [ContentBlockStart (contentIndex s1) (TextBlock [])] else []);
          s2 = (if currentBlockType s1 \<noteq> Some Text then s1\<lparr>currentBlockType := Some Text\<rparr> else s1)
      in (closing @ opening @ [ContentBlockDelta (contentIndex s2) (TextDelta content)], s2))"

text \<open>The callback over the whole upstream sequence.\<close>

fun relay :: "json_env \<Rightarrow> stream_state \<Rightarrow> upstream_event list \<Rightarrow> claude_event list \<times> stream_state" where
  "relay j s [] = ([], s)"
| "relay j s (d # ds) =
     (case onData j s d of
        (evs, s1) \<Rightarrow> (case relay j s1 ds of (evs', s2) \<Rightarrow> (evs @ evs', s2)))"

text \<open>
  The streaming branch of \<open>handleClaudeRequest\<close> for a model that is no image model,
  when the upstream call completes: everything written to the response.
\<close>

definition claudeStream :: "json_env \<Rightarrow> string \<Rightarrow> string \<Rightarrow> upstream_event list \<Rightarrow> claude_event list" where
  "claudeStream j msgId requestedModel upstream =
     (case relay j initialStream upstream of
        (evs, s) \<Rightarrow>
          [MessageStart msgId requestedModel] @ evs @
          (if currentBlockType s \<noteq> None then [ContentBlockStop (contentIndex s)] else []) @
          [MessageDelta (if hasToolCall s then ''tool_use'' else ''end_turn'')
             (case usageData s of Some completion_tokens \<Rightarrow> completion_tokens
              | None \<Rightarrow> Finite 0),
           MessageStop])"

subsection \<open>The block discipline of a stream\<close>

text \<open>
  Properties of a written stream, for the statements about it. \<open>startedTwice opened es\<close>:
  in \<open>es\<close>, read with the blocks \<open>opened\<close> open, some index is started while a block
  of that index is open. \<open>discipline n opn es\<close>: in \<open>es\<close>, read with \<open>n\<close> blocks started
  so far and the block \<open>opn\<close> open, every \<open>content_block_start\<close> comes when no block is
  open and carries the next index, every \<open>content_block_stop\<close> closes the open block, and
  no block is open at the end.
\<close>

fun startedTwice :: "nat list \<Rightarrow> claude_event list \<Rightarrow> bool" where
  "startedTwice opened [] = False"
| "startedTwice opened (ContentBlockStart i b # es) = (i \<in> set opened \<or> startedTwice (i # opened) es)"
| "startedTwice opened (ContentBlockStop i # es) = startedTwice (removeAll i opened) es"
| "startedTwice opened (MessageStart a b # es) = startedTwice opened es"
| "startedTwice opened (ContentBlockDelta i d # es) = startedTwice opened es"
| "startedTwice opened (MessageDelta a b # es) = startedTwice opened es"
| "startedTwice opened (MessageStop # es) = startedTwice opened es"

fun discipline :: "nat \<Rightarrow> nat option \<Rightarrow> claude_event list \<Rightarrow> bool" where
  "discipline n opn [] = (opn = None)"
| "discipline n opn (ContentBlockStart i b # es) = (opn = None \<and> i = n \<and> discipline (Suc n) (Some i) es)"
| "discipline n opn (ContentBlockStop i # es) = (opn = Some i \<and> discipline n None es)"
| "discipline n opn (MessageStart a b # es) = discipline n opn es"
| "discipline n opn (ContentBlockDelta i d # es) = discipline n opn es"
| "discipline n opn (MessageDelta a b # es) = discipline n opn es"
| "discipline n opn (MessageStop # es) = discipline n opn es"

text \<open>
  A property of the upstream sequence: its first reasoning delta arrives while a text
  block is open (\<open>textOpen\<close>: a text block is open before the sequence).
\<close>

fun lateReasoning :: "bool \<Rightarrow> upstream_event list \<Rightarrow> bool" where
  "lateReasoning textOpen [] = False"
| "lateReasoning textOpen (ReasoningEvent r sg # ds) = textOpen"
| "lateReasoning textOpen (ContentEvent c # ds) = lateReasoning True ds"
| "lateReasoning textOpen (ToolCallsEvent tcs # ds) = lateReasoning False ds"
| "lateReasoning textOpen (UsageEvent u # ds) = lateReasoning textOpen ds"

text \<open>What the variables of the callback say about the stream written so far.\<close>

definition nextIndex :: "stream_state \<Rightarrow> nat" where
  "nextIndex s = (if currentBlockType s \<noteq> None then Suc (contentIndex s) else contentIndex s)"

definition openBlock :: "stream_state \<Rightarrow> nat option" where
  "openBlock s = (if currentBlockType s \<noteq> None then Some (contentIndex s) else None)"

definition openList :: "stream_state \<Rightarrow> nat list" where
  "openList s = (if currentBlockType s \<noteq> None then [contentIndex s] else [])"

section \<open>A concrete environment\<close>

text \<open>
  To run the model on concrete documents the built-ins are instantiated: \<open>Number\<close> on
  the empty string and on runs of decimal digits (the other strings do not occur in the
  documents below, and read as \<open>NaN\<close> here), dates in the UTC time zone, finite numbers
  rendered as whole decimals, and a save that always succeeds and replaces the
  persisted routes.
\<close>

definition Number_digits :: "string \<Rightarrow> number" where
  "Number_digits s =
     (if list_all (\<lambda>c. CHR ''0'' \<le> c \<and> c \<le> CHR ''9'') s
      then roundDouble (of_nat (foldl (\<lambda>a c. 10 * a + (of_char c - 48)) 0 s))
      else NaN)"

text \<open>Days from 1970-01-01 to the first day of month \<open>m\<close> (from 1) of year \<open>y\<close>.\<close>

definition days_from_civil :: "int \<Rightarrow> int \<Rightarrow> int" where
  "days_from_civil y m =
     (let y1 = (if m \<le> 2 then y - 1 else y);
          era = y1 div 400;
          yoe = y1 - era * 400;
          doy = (153 * (if m > 2 then m - 3 else m + 9) + 2) div 5;
          doe = yoe * 365 + yoe div 4 - yoe div 100 + doy
      in era * 146097 + doe - 719468)"

text \<open>\<open>new Date(y, m, d).getTime()\<close> in UTC: months from 0; month and day may overflow.\<close>

definition utc_ymd :: "int \<Rightarrow> int \<Rightarrow> int \<Rightarrow> number" where
  "utc_ymd y m d =
     Finite (of_int ((days_from_civil (y + m div 12) (m mod 12 + 1) + (d - 1)) * 86400000))"

fun show_nat :: "nat \<Rightarrow> string" where
  "show_nat n =
     (if n < 10 then [''0123456789'' ! n]
      else show_nat (n div 10) @ [''0123456789'' ! (n mod 10)])"

fun show_whole :: "number \<Rightarrow> string" where
  "show_whole (Finite x) = (if x < 0 then ''-'' else []) @ show_nat (nat \<bar>\<lfloor>x\<rfloor>\<bar>)"
| "show_whole Infinity = ''Infinity''"
| "show_whole NegInfinity = ''-Infinity''"
| "show_whole NaN = ''NaN''"

definition save_routes :: "route_cfg list \<Rightarrow> route_cfg list \<Rightarrow> route_cfg list option" where
  "save_routes rs d = Some rs"

text \<open>Wednesday 2026-11-04, 12:00 UTC.\<close>

definition env0 :: "route_cfg list env" where
  "env0 = \<lparr>Number_str = Number_digits, Date_now = Finite 1793793600000,
           nowFullYear = 2026, nowMonth = 10, nowDate = 4, nowDay = 3,
           Date_ymd = utc_ymd, String_num = show_whole, Date_toLocaleString = show_whole,
           saveConfigJson = save_routes\<rparr>"

text \<open>
  A gateway with one route \<open>r1\<close> that holds, for the model \<open>m\<close>, the raw limit \<open>lv\<close> and
  the raw usage \<open>uv\<close>.
\<close>

definition route_m :: "jsv \<Rightarrow> jsv \<Rightarrow> route_cfg" where
  "route_m lv uv = \<lparr>id_field = ''r1'', routeId = [], modelLimits = JObj [(''m'', lv)],
                     modelUsage = JObj [(''m'', uv)]\<rparr>"

definition gw_m :: "jsv \<Rightarrow> jsv \<Rightarrow> route_cfg list gateway" where
  "gw_m lv uv = \<lparr>routes = [route_m lv uv], disk = []\<rparr>"

text \<open>
  A route \<open>r1\<close> that allows the model \<open>gpt-5.2\<close> and the alias \<open>fast\<close> for
  \<open>gpt-5.1-codex-mini\<close>, and a gateway that gives the target of the alias a total of 2.
\<close>

definition dr_alias :: downstream_route where
  "dr_alias = \<lparr>dr_id = ''r1'', isMaster = False, models = [''gpt-5.2''],
               modelAliases = [(''fast'', JStr ''gpt-5.1-codex-mini'')]\<rparr>"

text \<open>The same route with the alias \<open>fast\<close> mapped to the empty string.\<close>

definition dr_alias_empty :: downstream_route where
  "dr_alias_empty = dr_alias\<lparr>modelAliases := [(''fast'', JStr [])]\<rparr>"

definition gw_alias :: "route_cfg list gateway" where
  "gw_alias = \<lparr>routes = [\<lparr>id_field = ''r1'', routeId = [],
                  modelLimits = JObj [(''gpt-5.1-codex-mini'', JObj [(''total'', JNum (Finite 2))])],
                  modelUsage = JObj []\<rparr>], disk = []\<rparr>"

definition body_for :: "string \<Rightarrow> chat_body" where
  "body_for m = \<lparr>messages = JArr [JStr ''hi''], model = JStr m\<rparr>"

text \<open>
  A manager with three providers, of which \<open>codex\<close> is enabled but not initialized, and
  one with only such a provider.
\<close>

definition p_antigravity :: provider where
  "p_antigravity = \<lparr>name = ''antigravity'', enabled = True, initialized = True, priority = 1,
                    supportedModels = [''gemini-*'']\<rparr>"

definition p_kiro :: provider where
  "p_kiro = \<lparr>name = ''kiro'', enabled = True, initialized = True, priority = 2,
             supportedModels = [''claude-*'']\<rparr>"

definition p_codex :: provider where
  "p_codex = \<lparr>name = ''codex'', enabled = True, initialized = False, priority = 3,
              supportedModels = [''gpt-5.2'']\<rparr>"

definition pm_three :: provider_manager where
  "pm_three = \<lparr>providers = [(''kiro'', p_kiro), (''codex'', p_codex), (''antigravity'', p_antigravity)],
               modelProviderMapping = [(''gpt-5.2'', [''codex'', ''kiro'']), (''claude-*'', [''kiro''])]\<rparr>"

definition pm_uninitialized :: provider_manager where
  "pm_uninitialized = \<lparr>providers = [(''codex'', p_codex)],
                       modelProviderMapping = [(''gpt-5.2'', [''codex''])]\<rparr>"

text \<open>
  A Codex store with a disabled account, an OAuth account that expires at 1000000 and
  an API-key account, and a Kiro store of the same shape. In the worlds \<open>cw_late\<close> and
  \<open>kw_late\<close> the clock reads 500000 (within ten minutes of the expiry) and every
  refresh succeeds; in \<open>cw_early\<close> and \<open>kw_early\<close> the clock reads 0.
\<close>

definition cx_acc_off :: codex_account where
  "cx_acc_off = \<lparr>cx_id = ''c0'', cx_email = [], cx_enable = Some False, auth_type = ''oauth'',
                 access_token = ''at0'', refresh_token = ''rt0'', expires_at = Some (Finite 1),
                 chatgpt_account_id = []\<rparr>"

definition cx_acc_oauth :: codex_account where
  "cx_acc_oauth = \<lparr>cx_id = ''c1'', cx_email = [], cx_enable = None, auth_type = ''oauth'',
                   access_token = ''at1'', refresh_token = ''rt1'',
                   expires_at = Some (Finite 1000000),
                   chatgpt_account_id = []\<rparr>"

definition cx_acc_key :: codex_account where
  "cx_acc_key = \<lparr>cx_id = ''c2'', cx_email = [], cx_enable = Some True, auth_type = ''api_key'',
                 access_token = [], refresh_token = [], expires_at = None,
                 chatgpt_account_id = []\<rparr>"

definition cx_store :: codex_manager where
  "cx_store = \<lparr>cx_accounts = [cx_acc_off, cx_acc_oauth, cx_acc_key], cx_currentIndex = 0,
               cx_file = [cx_acc_off, cx_acc_oauth, cx_acc_key], cx_posted = []\<rparr>"

definition cw_late :: codex_world where
  "cw_late = \<lparr>cw_now = (\<lambda>k. Finite 500000),
              cw_post = (\<lambda>k rt. Some \<lparr>rs_access_token = ''at-new'', rs_refresh_token = ''rt-new'',
                                        rs_expires_in = Some (Finite 3600)\<rparr>),
              cw_now_after = (\<lambda>k. Finite 500100), cw_save_ok = (\<lambda>k. True),
              cw_extractAccountId = (\<lambda>t. []), cw_extractEmail = (\<lambda>t. [])\<rparr>"

definition cw_early :: codex_world where
  "cw_early = cw_late\<lparr>cw_now := (\<lambda>k. Finite 0)\<rparr>"

text \<open>
  A store whose only account is the OAuth account with \<open>expires_at\<close> 0, a store whose
  only account is the OAuth account above, and a world in which every refresh request
  fails.
\<close>

definition cx_acc_epoch :: codex_account where
  "cx_acc_epoch = cx_acc_oauth\<lparr>expires_at := Some (Finite 0)\<rparr>"

definition cx_store_epoch :: codex_manager where
  "cx_store_epoch = \<lparr>cx_accounts = [cx_acc_epoch], cx_currentIndex = 0,
                     cx_file = [cx_acc_epoch], cx_posted = []\<rparr>"

definition cx_store_single :: codex_manager where
  "cx_store_single = \<lparr>cx_accounts = [cx_acc_oauth], cx_currentIndex = 0,
                      cx_file = [cx_acc_oauth], cx_posted = []\<rparr>"

definition cw_down :: codex_world where
  "cw_down = cw_late\<lparr>cw_post := (\<lambda>k rt. None)\<rparr>"

definition kr_acc_off :: kiro_account where
  "kr_acc_off = \<lparr>kr_id = ''k0'', kr_email = [], kr_enable = Some False, accessToken = ''at0'',
                 refreshToken = ''rt0'', profileArn = [], expiresAt = Instant (Finite 1), region = [],
                 authMethod = [], clientId = [], clientSecret = []\<rparr>"

definition kr_acc_social :: kiro_account where
  "kr_acc_social = \<lparr>kr_id = ''k1'', kr_email = [], kr_enable = None, accessToken = ''at1'',
                    refreshToken = ''rt1'', profileArn = [], expiresAt = Instant (Finite 1000000),
                    region = [],
                    authMethod = [], clientId = [], clientSecret = []\<rparr>"

definition kr_acc_plain :: kiro_account where
  "kr_acc_plain = \<lparr>kr_id = ''k2'', kr_email = [], kr_enable = Some True, accessToken = ''at2'',
                   refreshToken = ''rt2'', profileArn = [], expiresAt = NoExpiry, region = [],
                   authMethod = [], clientId = [], clientSecret = []\<rparr>"

definition kr_store :: kiro_manager where
  "kr_store = \<lparr>kr_accounts = [kr_acc_off, kr_acc_social, kr_acc_plain], kr_currentIndex = 0,
               kr_file = [kr_acc_off, kr_acc_social, kr_acc_plain], kr_posted = []\<rparr>"

definition kw_late :: kiro_world where
  "kw_late = \<lparr>kw_now = (\<lambda>k. Finite 500000),
              kw_post = (\<lambda>k rq. Some \<lparr>kp_accessToken = ''at-new'', kp_refreshToken = [],
                                        kp_profileArn = [], kp_expiresIn = None\<rparr>),
              kw_now_after = (\<lambda>k. Finite 500100), kw_save_ok = (\<lambda>k. True)\<rparr>"

definition kw_early :: kiro_world where
  "kw_early = kw_late\<lparr>kw_now := (\<lambda>k. Finite 0)\<rparr>"

definition kr_store_single :: kiro_manager where
  "kr_store_single = \<lparr>kr_accounts = [kr_acc_social], kr_currentIndex = 0,
                      kr_file = [kr_acc_social], kr_posted = []\<rparr>"

definition kw_down :: kiro_world where
  "kw_down = kw_late\<lparr>kw_post := (\<lambda>k rq. None)\<rparr>"

text \<open>
  A store of the Antigravity kind with one account that expires at 1000000, and two
  worlds with the clock at 500000 and a buffer of ten minutes: in one the refresh
  gives the account a new token and expiry, in the other it fails.
\<close>

definition sp_acc :: spec_account where
  "sp_acc = \<lparr>sa_enabled = None, sa_expiresAt = Some (Finite 1000000), sa_accessToken = ''at1'',
             sa_refreshToken = ''rt1''\<rparr>"

definition sp_store :: spec_manager where
  "sp_store = \<lparr>sm_accounts = [sp_acc], sm_currentIndex = 0, sm_file = [sp_acc]\<rparr>"

definition sw_late :: spec_world where
  "sw_late = \<lparr>sw_now = (\<lambda>k. Finite 500000), sw_refreshBuffer = Finite 600000,
              sw_refresh = (\<lambda>k a. Some (a\<lparr>sa_accessToken := ''at-new'',
                                              sa_expiresAt := Some (Finite 4100100)\<rparr>))\<rparr>"

definition sw_down :: spec_world where
  "sw_down = sw_late\<lparr>sw_refresh := (\<lambda>k a. None)\<rparr>"

text \<open>
  A \<open>JSON.parse\<close> that reads the two documents \<open>{}\<close> and \<open>[]\<close> and throws on everything
  else, with signatures not passed on; a tool call it can read and one it cannot.
\<close>

definition json_two :: json_env where
  "json_two = \<lparr>passSignatureToClient = False,
               JSON_parse = (\<lambda>s. if s = ''{}'' then Some (JObj [])
                                  else if s = ''[]'' then Some (JArr []) else None),
               JSON_stringify = (\<lambda>v. if v = JArr [] then ''[]'' else ''{}'')\<rparr>"

definition tc_good :: tool_call where
  "tc_good = \<lparr>tc_id = ''t1'', tc_name = ''f'', tc_arguments = ''{}'', tc_thoughtSignature = []\<rparr>"

definition tc_bad :: tool_call where
  "tc_bad = \<lparr>tc_id = ''t2'', tc_name = ''g'', tc_arguments = ''{x'', tc_thoughtSignature = []\<rparr>"

section \<open>Properties of the numbers\<close>

lemma floorLog2_bounds:
  assumes "0 < q"
  shows "2 powi (floorLog2 q) \<le> q" and "q < 2 powi (floorLog2 q + 1)"
proof -
  show "2 powi (floorLog2 q) \<le> q"
  proof (cases "1 \<le> q")
    case True
    define n where "n = nat \<lfloor>q\<rfloor>"
    have n: "0 < n" using True by (simp add: n_def)
    have "2 ^ (floorlog 2 n - 1) \<le> n" using floorlog_bounds[of n 2] n by simp
    then have "(2::rat) ^ (floorlog 2 n - 1) \<le> of_nat n"
      by (metis of_nat_le_iff of_nat_numeral of_nat_power)
    also have "of_nat n \<le> q" using True by (simp add: n_def)
    finally have "(2::rat) ^ (floorlog 2 n - 1) \<le> q" .
    moreover have "0 < floorlog 2 n" using n by (simp add: floorlog_def)
    ultimately show ?thesis using True
      by (simp add: floorLog2_def n_def[symmetric] power_int_def nat_diff_distrib' of_nat_diff)
  next
    case False
    define c where "c = nat (\<lceil>1 / q\<rceil> - 1)"
    define k where "k = floorlog 2 c"
    have x: "1 < 1 / q" using False assms by simp
    then have "of_int 2 - 1 < 1 / q" by simp
    then have c2: "2 \<le> \<lceil>1 / q\<rceil>" by (simp only: le_ceiling_iff)
    have c: "0 < c" unfolding c_def using c2 by linarith
    have "c < 2 ^ k" using floorlog_bounds[of c 2] c by (simp add: k_def)
    then have "Suc c \<le> 2 ^ k" by simp
    then have "(of_nat (Suc c) :: rat) \<le> 2 ^ k"
      by (metis of_nat_le_iff of_nat_numeral of_nat_power)
    moreover have "1 / q \<le> of_nat (Suc c)"
    proof -
      have "int (Suc (nat (z - 1))) = z" if "2 \<le> z" for z :: int using that by simp
      from this[OF c2] have "int (Suc c) = \<lceil>1 / q\<rceil>" by (simp only: c_def)
      then have "of_nat (Suc c) = (of_int \<lceil>1 / q\<rceil> :: rat)"
        by (metis of_int_of_nat_eq)
      then show ?thesis by (simp add: le_of_int_ceiling)
    qed
    ultimately have "1 / q \<le> 2 ^ k" by (rule order.trans[rotated])
    then have "1 / 2 ^ k \<le> q" using assms
      by (simp add: field_simps)
    then show ?thesis using False
      by (simp add: floorLog2_def c_def[symmetric] k_def[symmetric] power_int_minus_divide)
  qed
  show "q < 2 powi (floorLog2 q + 1)"
  proof (cases "1 \<le> q")
    case True
    define n where "n = nat \<lfloor>q\<rfloor>"
    have n: "0 < n" using True by (simp add: n_def)
    have "n < 2 ^ floorlog 2 n" using floorlog_bounds[of n 2] n by simp
    then have "Suc n \<le> 2 ^ floorlog 2 n" by simp
    then have "(of_nat (Suc n) :: rat) \<le> 2 ^ floorlog 2 n"
      by (metis of_nat_le_iff of_nat_numeral of_nat_power)
    moreover have "q < of_nat (Suc n)"
    proof -
      have "of_nat (Suc n) = (of_int (\<lfloor>q\<rfloor> + 1) :: rat)" using True by (simp add: n_def)
      then show ?thesis using floor_correct[of q] by (simp only: of_int_add of_int_1)
    qed
    ultimately have "q < 2 ^ floorlog 2 n" by (rule order.strict_trans2[rotated])
    then show ?thesis using True by (simp add: floorLog2_def n_def[symmetric])
  next
    case False
    define c where "c = nat (\<lceil>1 / q\<rceil> - 1)"
    define k where "k = floorlog 2 c"
    have x: "1 < 1 / q" using False assms by simp
    then have "of_int 2 - 1 < 1 / q" by simp
    then have c2: "2 \<le> \<lceil>1 / q\<rceil>" by (simp only: le_ceiling_iff)
    have c: "0 < c" unfolding c_def using c2 by linarith
    have k: "0 < k" using c by (simp add: k_def floorlog_def)
    have "2 ^ (k - 1) \<le> c" using floorlog_bounds[of c 2] c by (simp add: k_def)
    then have "(2::rat) ^ (k - 1) \<le> of_nat c"
      by (metis of_nat_le_iff of_nat_numeral of_nat_power)
    moreover have "of_nat c < 1 / q"
    proof -
      have "int (nat (z - 1)) = z - 1" if "2 \<le> z" for z :: int using that by simp
      from this[OF c2] have "int c = \<lceil>1 / q\<rceil> - 1" by (simp only: c_def)
      then have "(of_nat c :: rat) = of_int (\<lceil>1 / q\<rceil> - 1)" by (metis of_int_of_nat_eq)
      then have "(of_nat c :: rat) = of_int \<lceil>1 / q\<rceil> - 1" by simp
      then show ?thesis using ceiling_correct[of "1 / q"] by linarith
    qed
    ultimately have "(2::rat) ^ (k - 1) < 1 / q" by (rule order.strict_trans1)
    then have "q < 1 / 2 ^ (k - 1)" using assms by (simp add: field_simps)
    moreover have "(2::rat) powi (- int k + 1) = 1 / 2 ^ (k - 1)"
    proof -
      have "- int k + 1 = - int (k - 1)" using k by simp
      then show ?thesis by (simp add: power_int_minus_divide del: of_nat_diff)
    qed
    ultimately show ?thesis using False
      by (simp add: floorLog2_def c_def[symmetric] k_def[symmetric])
  qed
qed

lemma powi2_lessD: "(2::rat) powi a < 2 powi b \<Longrightarrow> a < b"
proof (rule ccontr)
  assume l: "(2::rat) powi a < 2 powi b" and "\<not> a < b"
  then have "b \<le> a" by simp
  then have "(2::rat) powi b \<le> 2 powi a" by (rule power_int_increasing) simp
  with l show False by simp
qed

lemma floorLog2_unique:
  assumes "0 < q" "2 powi e \<le> q" "q < 2 powi (e + 1)"
  shows "floorLog2 q = e"
proof -
  note b = floorLog2_bounds[OF assms(1)]
  have "(2::rat) powi e < 2 powi (floorLog2 q + 1)" using assms(2) b(2) by simp
  then have "e < floorLog2 q + 1" by (rule powi2_lessD)
  moreover have "(2::rat) powi (floorLog2 q) < 2 powi (e + 1)" using assms(3) b(1) by simp
  then have "floorLog2 q < e + 1" by (rule powi2_lessD)
  ultimately show ?thesis by simp
qed

lemma roundHalfEven_of_int [simp]: "roundHalfEven (of_int n) = n"
  by (simp add: roundHalfEven_def)


lemma roundDouble_pos:
  assumes "0 < q"
  shows "roundDouble q =
     (let e = max (floorLog2 q) (- 1022);
          r = of_int (roundHalfEven (q / 2 powi (e - 52))) * 2 powi (e - 52)
      in if 2 ^ 1024 \<le> r then Infinity else Finite r)"
  using assms by (simp add: roundDouble_def Let_def)

lemma roundDouble_minus: "roundDouble (- q) = (case roundDouble q of
    Finite r \<Rightarrow> Finite (- r) | Infinity \<Rightarrow> NegInfinity | NegInfinity \<Rightarrow> Infinity | NaN \<Rightarrow> NaN)"
  by (cases "q = 0"; cases "0 < q") (auto simp: roundDouble_def Let_def)

text \<open>An integer of magnitude up to \<open>2^53\<close> is a double.\<close>

lemma roundDouble_nat_exact:
  assumes "n \<le> 2 ^ 53"
  shows "roundDouble (of_nat n) = Finite (of_nat n)"
proof (cases "n = 0")
  case True then show ?thesis by (simp add: roundDouble_def)
next
  case False
  define q :: rat where "q = of_nat n"
  have q: "0 < q" "1 \<le> q" using False by (simp_all add: q_def)
  have qle: "q \<le> 2 ^ 53"
  proof -
    have "(of_nat n :: rat) \<le> of_nat (2 ^ 53)" using assms by (simp only: of_nat_le_iff)
    then show ?thesis by (simp add: q_def)
  qed
  define e where "e = floorLog2 q"
  note b = floorLog2_bounds[OF q(1), folded e_def]
  have e0: "0 \<le> e"
  proof -
    have "(2::rat) powi 0 < 2 powi (e + 1)" using q(2) b(2) by simp
    then have "0 < e + 1" by (rule powi2_lessD)
    then show ?thesis by simp
  qed
  have e53: "e \<le> 53"
  proof -
    have "(2::rat) powi e < 2 powi 54" using b(1) qle by simp
    then have "e < 54" by (rule powi2_lessD)
    then show ?thesis by simp
  qed
  have m: "max e (- 1022) = e" using e0 by simp
  have exact: "of_int (roundHalfEven (q / 2 powi (e - 52))) * 2 powi (e - 52) = q"
  proof (cases "e \<le> 52")
    case True
    have "(2::rat) powi (e - 52) = 1 / 2 ^ nat (52 - e)"
    proof -
      have "e - 52 = - int (nat (52 - e))" using True by simp
      then show ?thesis by (simp only: power_int_minus_divide power_int_of_nat)
    qed
    moreover have z: "q * 2 ^ nat (52 - e) = of_int (int n * 2 ^ nat (52 - e))"
      by (simp add: q_def)
    ultimately have "of_int (roundHalfEven (q / 2 powi (e - 52))) * 2 powi (e - 52)
        = (of_int (int n * 2 ^ nat (52 - e)) / 2 ^ nat (52 - e) :: rat)"
      by (simp del: of_int_mult of_int_power)
    also have "\<dots> = q" unfolding z[symmetric] by simp
    finally show ?thesis .
  next
    case False
    then have e: "e = 53" using e53 by simp
    have "2 ^ 53 \<le> q" using b(1) by (simp add: e)
    then have q53: "q = 2 ^ 53" using qle by simp
    have "q / 2 = of_int (2 ^ 52)" by (simp add: q53)
    then show ?thesis by (simp add: e del: of_int_power of_int_numeral)
  qed
  have small: "\<not> (2 :: rat) ^ 1024 \<le> q"
  proof -
    have "(2::rat) ^ 53 < 2 ^ 1024" by (rule power_strict_increasing) simp_all
    then show ?thesis using qle by simp
  qed
  show ?thesis
    unfolding q_def[symmetric] roundDouble_pos[OF q(1)] e_def[symmetric] m Let_def exact
    using small by simp
qed

text \<open>At \<open>2^53\<close> adding one no longer advances: the sum rounds back to \<open>2^53\<close>.\<close>

lemma roundDouble_2_53_plus_1: "roundDouble (2 ^ 53 + 1) = Finite (2 ^ 53)"
proof -
  define q :: rat where "q = 2 ^ 53 + 1"
  have q: "0 < q" by (simp add: q_def)
  have e: "floorLog2 q = 53"
    by (rule floorLog2_unique) (simp_all add: q_def)
  have "q / 2 = 2 ^ 52 + 1 / 2" by (simp add: q_def)
  moreover have "\<lfloor>(2::rat) ^ 52 + 1 / 2\<rfloor> = 2 ^ 52"
    by (rule floor_unique) simp_all
  ultimately have r: "roundHalfEven (q / 2) = 2 ^ 52"
    by (simp add: roundHalfEven_def Let_def)
  have small: "\<not> (2 :: rat) ^ 1024 \<le> 2 ^ 53"
  proof -
    have "(2::rat) ^ 53 < 2 ^ 1024" by (rule power_strict_increasing) simp_all
    then show ?thesis by simp
  qed
  have "roundDouble q = Finite (2 ^ 53)"
    unfolding roundDouble_pos[OF q] e Let_def using small by (simp add: r)
  then show ?thesis by (simp only: q_def)
qed


lemma roundHalfEven_ge_floor: "\<lfloor>x\<rfloor> \<le> roundHalfEven x"
  by (simp add: roundHalfEven_def Let_def)

lemma powi2_nonneg_exp: "0 \<le> e \<Longrightarrow> (2::rat) powi e = of_int (2 ^ nat e)"
  by (simp add: power_int_def)

text \<open>From \<open>2^1024\<close> on a value rounds to \<open>Infinity\<close>.\<close>

lemma roundDouble_overflow:
  assumes "2 ^ 1024 \<le> q"
  shows "roundDouble q = Infinity"
proof -
  have q: "0 < q"
  proof -
    have "(0::rat) < 2 ^ 1024" by simp
    then show ?thesis using assms by (rule less_le_trans)
  qed
  define e where "e = floorLog2 q"
  note b = floorLog2_bounds[OF q, folded e_def]
  have e: "1024 \<le> e"
  proof -
    have "(2::rat) powi 1024 < 2 powi (e + 1)" using assms b(2) by simp
    then have "1024 < e + 1" by (rule powi2_lessD)
    then show ?thesis by simp
  qed
  then have m: "max e (- 1022) = e" by simp
  define u :: rat where "u = 2 powi (e - 52)"
  have u: "0 < u" by (simp add: u_def)
  have split: "(2::rat) powi e = 2 ^ 52 * u"
  proof -
    have "(2::rat) powi (52 + (e - 52)) = 2 powi 52 * 2 powi (e - 52)"
      by (rule power_int_add) simp
    moreover have "(2::rat) powi 52 = 2 ^ 52" by (simp add: power_int_def)
    ultimately show ?thesis by (simp add: u_def)
  qed
  then have "2 ^ 52 * u \<le> q" using b(1) by simp
  then have "2 ^ 52 \<le> q / u" using u by (simp add: pos_le_divide_eq)
  then have "of_int (2 ^ 52) \<le> q / u" by simp
  then have "2 ^ 52 \<le> \<lfloor>q / u\<rfloor>" by (simp only: le_floor_iff)
  then have "2 ^ 52 \<le> roundHalfEven (q / u)"
    using roundHalfEven_ge_floor[of "q / u"] by linarith
  then have "(of_int (2 ^ 52) :: rat) \<le> of_int (roundHalfEven (q / u))"
    by (simp only: of_int_le_iff)
  then have "2 ^ 52 * u \<le> of_int (roundHalfEven (q / u)) * u"
    using u by (simp add: mult_right_mono)
  moreover note split[symmetric]
  moreover have "(2::rat) powi 1024 \<le> 2 powi e" using e by (rule power_int_increasing) simp
  ultimately have "2 ^ 1024 \<le> of_int (roundHalfEven (q / u)) * u" by simp
  then show ?thesis
    unfolding roundDouble_pos[OF q] e_def[symmetric] m Let_def u_def[symmetric] by simp
qed

text \<open>A natural number rounds to a natural number, or to \<open>Infinity\<close>.\<close>

lemma roundDouble_nat_cases:
  "roundDouble (of_nat n) = Infinity \<or> (\<exists>k. roundDouble (of_nat n) = Finite (of_nat k))"
proof (cases "n \<le> 2 ^ 53")
  case True
  then show ?thesis using roundDouble_nat_exact[of n] by blast
next
  case False
  define q :: rat where "q = of_nat n"
  have big: "2 ^ 53 \<le> q"
  proof -
    have "(of_nat (2 ^ 53) :: rat) \<le> of_nat n" using False by (simp only: of_nat_le_iff)
    then show ?thesis by (simp add: q_def)
  qed
  then have q: "0 < q" by (simp add: less_le_trans[of 0 "2 ^ 53"])
  define e where "e = floorLog2 q"
  note b = floorLog2_bounds[OF q, folded e_def]
  have e: "53 \<le> e"
  proof -
    have "(2::rat) powi 53 < 2 powi (e + 1)" using big b(2) by simp
    then have "53 < e + 1" by (rule powi2_lessD)
    then show ?thesis by simp
  qed
  then have m: "max e (- 1022) = e" by simp
  define z where "z = roundHalfEven (q / 2 powi (e - 52)) * 2 ^ nat (e - 52)"
  have pw: "(2::rat) powi (e - 52) = of_int (2 ^ nat (e - 52))"
    using e by (intro powi2_nonneg_exp) simp
  have "0 \<le> q / 2 powi (e - 52)" using q by simp
  then have "0 \<le> \<lfloor>q / 2 powi (e - 52)\<rfloor>" by simp
  then have "0 \<le> roundHalfEven (q / 2 powi (e - 52))"
    using roundHalfEven_ge_floor[of "q / 2 powi (e - 52)"] by linarith
  then have z0: "0 \<le> z" by (simp add: z_def)
  have r: "of_int (roundHalfEven (q / 2 powi (e - 52))) * 2 powi (e - 52) = (of_nat (nat z) :: rat)"
  proof -
    have "of_int (roundHalfEven (q / 2 powi (e - 52))) * 2 powi (e - 52) = (of_int z :: rat)"
      unfolding z_def of_int_mult pw[symmetric] ..
    also have "\<dots> = of_nat (nat z)" using z0 by simp
    finally show ?thesis .
  qed
  show ?thesis
    unfolding q_def[symmetric] roundDouble_pos[OF q] e_def[symmetric] m Let_def r by auto
qed


lemma js_lt_simps2 [simp]:
  "js_lt a NaN = False" "js_lt a NegInfinity = False" "js_lt Infinity a = False" "js_lt NaN a = False"
  by (cases a; simp)+

lemma js_le_simps2 [simp]:
  "js_le a NaN = False" "js_le Infinity Infinity = True" "js_le NegInfinity NegInfinity"
  "js_le (Finite x) Infinity" "js_le NegInfinity (Finite x)" "js_le NegInfinity Infinity"
  "js_le Infinity (Finite x) = False" "js_le Infinity NegInfinity = False"
  "js_le (Finite x) NegInfinity = False"
  by (cases a; simp)+

lemma js_ge_iff_not_lt: "a \<noteq> NaN \<Longrightarrow> b \<noteq> NaN \<Longrightarrow> js_ge a b \<longleftrightarrow> \<not> js_lt a b"
  by (cases a; cases b; simp add: js_ge_def not_less)

lemma js_cmp_Finite [simp]:
  "js_ge (Finite a) (Finite b) = (b \<le> a)" "js_gt (Finite a) (Finite b) = (b < a)"
  by (simp_all add: js_ge_def js_gt_def)

text \<open>Adding one: exact for a natural number below \<open>2^53\<close>, and stuck at \<open>2^53\<close>.\<close>

lemma js_add_one_exact:
  assumes "n < 2 ^ 53"
  shows "js_add (Finite (of_nat n)) (Finite 1) = Finite (of_nat n + 1)"
proof -
  have "Suc n \<le> 2 ^ 53" using assms by simp
  from roundDouble_nat_exact[OF this] show ?thesis by (simp add: add.commute)
qed

lemma js_add_one_stuck: "js_add (Finite (2 ^ 53)) (Finite 1) = Finite (2 ^ 53)"
  using roundDouble_2_53_plus_1 by simp

lemma roundDouble_numeral [simp]:
  "numeral k \<le> (2 ^ 53 :: nat) \<Longrightarrow> roundDouble (numeral k) = Finite (numeral k)"
  using roundDouble_nat_exact[of "numeral k"] by simp

lemma roundDouble_0 [simp]: "roundDouble 0 = Finite 0"
  by (simp add: roundDouble_def)

lemma roundDouble_1 [simp]: "roundDouble 1 = Finite 1"
  using roundDouble_nat_exact[of 1] by simp

lemma roundDouble_neg_numeral [simp]:
  "numeral k \<le> (2 ^ 53 :: nat) \<Longrightarrow> roundDouble (- numeral k) = Finite (- numeral k)"
  by (simp add: roundDouble_minus)



lemma roundDouble_int_exact:
  assumes "\<bar>i\<bar> \<le> 2 ^ 53"
  shows "roundDouble (of_int i) = Finite (of_int i)"
proof (cases "0 \<le> i")
  case True
  then have "nat i \<le> 2 ^ 53" using assms by (simp add: nat_le_iff)
  from roundDouble_nat_exact[OF this] True show ?thesis by simp
next
  case False
  then have "nat (- i) \<le> 2 ^ 53" using assms by (simp add: nat_le_iff)
  from roundDouble_nat_exact[OF this] False
  have "roundDouble (of_int (- i)) = Finite (of_int (- i))" by simp
  then have "roundDouble (- of_int i) = Finite (- of_int i)" by simp
  then show ?thesis
    using roundDouble_minus[of "- of_int i"] by simp
qed

section \<open>Properties of the quota check\<close>

lemmas quota_defs = consumeRoutingModelQuota_def getRoutingRouteById_def routeKey_def
  normalizeLimitEntry_def normalizeLimitObject_def isSet_def parseNonNegativeInt_def
  normalizeUsageEntry_def expiryCheck_def periodRollover_def periodConfigured_def
  totalCheck_def periodCheck_def debit_def usageToJs_def limitValue_def usageValue_def
  committed_def

lemmas sample_defs = gw_m_def route_m_def env0_def save_routes_def getPeriodStartTimestamp_def
  utc_ymd_def days_from_civil_def

lemma findIndex_less: "findIndex P xs = Some i \<Longrightarrow> i < length xs"
  by (induction xs arbitrary: i) (auto split: if_splits)

lemma getRoutingRouteById_less: "getRoutingRouteById rs rid = Some i \<Longrightarrow> i < length rs"
  by (auto simp: getRoutingRouteById_def split: if_splits dest: findIndex_less)

lemma findIndex_update_same:
  "j < length xs \<Longrightarrow> P x = P (xs ! j) \<Longrightarrow> findIndex P (xs[j := x]) = findIndex P xs"
proof (induction xs arbitrary: j)
  case Nil
  then show ?case by simp
next
  case (Cons a xs)
  then show ?case by (cases j) auto
qed

lemma totalUsed_periodRollover [simp]: "totalUsed (periodRollover e lc u) = totalUsed u"
  by (simp add: periodRollover_def Let_def split: option.splits prod.splits)

lemma totalUsed_debit [simp]: "totalUsed (debit lc u) = js_add (totalUsed u) (Finite 1)"
  by (simp add: debit_def Let_def split: option.splits)

text \<open>The check on a route that is found, has a limit and is not past its expiry.\<close>

lemma consume_unfold:
  assumes "getRoutingRouteById (routes st) rid = Some i"
    and "normalizeLimitEntry (Number_str e) (limitValue st i m) = Some lc"
    and "expiryCheck e lc = None"
  shows "consumeRoutingModelQuota e st rid m =
     (let u = periodRollover e lc (normalizeUsageEntry (Number_str e) (usageValue st i m)) in
      case totalCheck lc u of
        Some t \<Rightarrow> (TotalExceeded t (totalUsed u), st)
      | None \<Rightarrow>
         (case periodCheck lc u of
            Some (p, pl) \<Rightarrow> (PeriodExceeded p pl (periodUsed u), st)
          | None \<Rightarrow> (Consumed (totalUsed (debit lc u)) (periodUsed (debit lc u)),
                      committed e st i m (debit lc u))))"
  using assms
  by (simp add: consumeRoutingModelQuota_def limitValue_def usageValue_def committed_def Let_def
      split: option.splits prod.splits)

lemma usageValue_committed:
  "i < length (routes st) \<Longrightarrow> usageValue (committed e st i m u) i m = usageToJs u"
  by (simp add: usageValue_def committed_def Let_def update_conv')

lemma parse_nat:
  "parseNonNegativeInt Num Some (JNum (Finite (of_nat n))) None = Some (Finite (of_nat n))"
  by (simp add: parseNonNegativeInt_def)

lemma parse_nat_id:
  "parseNonNegativeInt Num id (JNum (Finite (of_nat n))) (Finite 0) = Finite (of_nat n)"
  by (simp add: parseNonNegativeInt_def)

lemma limit_forms:
  "normalizeLimitEntry Num (JObj [(''total'', JNum (Finite (of_nat n)))])
     = normalizeLimitEntry Num (JNum (Finite (of_nat n)))"
  "normalizeLimitEntry Num (JObj [(''total'', JNum (Finite (of_nat n))), (''period'', JNull),
       (''periodLimit'', JNull), (''expireAt'', JNull)]) = normalizeLimitEntry Num (JNum (Finite (of_nat n)))"
  "normalizeLimitEntry Num (JNum (Finite (of_nat n))) =
     Some \<lparr>lim_total = Some (Finite (of_nat n)), lim_period = None,
            lim_periodLimit = None, lim_expireAt = None\<rparr>"
  by (simp_all add: normalizeLimitEntry_def normalizeLimitObject_def isSet_def parse_nat Let_def)

lemma usage_forms:
  "normalizeUsageEntry Num (JObj [(''totalUsed'', JNum (Finite (of_nat n)))])
     = normalizeUsageEntry Num (JNum (Finite (of_nat n)))"
  "normalizeUsageEntry Num (JNum (Finite (of_nat n)))
     = \<lparr>totalUsed = Finite (of_nat n), periodUsed = Finite 0, lastReset = Finite 0\<rparr>"
  by (simp_all add: normalizeUsageEntry_def parse_nat_id parseNonNegativeInt_def)

lemma normalize_usageToJs_nat:
  "normalizeUsageEntry Num (usageToJs \<lparr>totalUsed = Finite (of_nat a), periodUsed = Finite (of_nat b),
                                       lastReset = Finite (of_nat c)\<rparr>)
     = \<lparr>totalUsed = Finite (of_nat a), periodUsed = Finite (of_nat b), lastReset = Finite (of_nat c)\<rparr>"
  by (simp add: normalizeUsageEntry_def usageToJs_def parseNonNegativeInt_def)

text \<open>One request on a route whose only limit is \<open>{total: 2}\<close> for the model \<open>m\<close>.\<close>

lemma total2_step:
  assumes rs: "routes st = [\<lparr>id_field = ''r'', routeId = [],
                       modelLimits = JObj [(''m'', JObj [(''total'', JNum (Finite 2))])],
                       modelUsage = JObj kvs\<rparr>]"
    and us: "normalizeUsageEntry (Number_str e) (js_get (JObj kvs) ''m'')
               = \<lparr>totalUsed = Finite (of_nat n), periodUsed = Finite 0, lastReset = Finite 0\<rparr>"
    and n: "n \<le> 2"
  shows "consumeRoutingModelQuota e st ''r'' ''m'' =
           (if 2 \<le> n then (TotalExceeded (Finite 2) (Finite (of_nat n)), st)
            else (Consumed (Finite (of_nat n + 1)) (Finite 0),
                  committed e st 0 ''m'' \<lparr>totalUsed = Finite (of_nat n + 1), periodUsed = Finite 0,
                                           lastReset = Finite 0\<rparr>))"
proof -
  let ?L = "\<lparr>lim_total = Some (Finite 2), lim_period = None, lim_periodLimit = None,
             lim_expireAt = None\<rparr>"
  have h1: "getRoutingRouteById (routes st) ''r'' = Some 0"
    by (simp add: rs getRoutingRouteById_def routeKey_def)
  have h2: "normalizeLimitEntry (Number_str e) (limitValue st 0 ''m'') = Some ?L"
    using limit_forms(1,3)[of "Number_str e" 2] by (simp add: rs limitValue_def)
  have h3: "expiryCheck e ?L = None" by (simp add: expiryCheck_def)
  have u: "normalizeUsageEntry (Number_str e) (usageValue st 0 ''m'')
             = \<lparr>totalUsed = Finite (of_nat n), periodUsed = Finite 0, lastReset = Finite 0\<rparr>"
    using us by (simp add: rs usageValue_def)
  have two: "(2 :: rat) \<le> of_nat n \<longleftrightarrow> 2 \<le> n"
    using of_nat_le_iff[of 2 n, where ?'a = rat] by simp
  have "n < 2 ^ 53" using n by simp
  from js_add_one_exact[OF this]
  have inc: "roundDouble (of_nat n + 1) = Finite (of_nat n + 1)" by simp
  show ?thesis
    unfolding consume_unfold[OF h1 h2 h3] u
    by (simp add: Let_def periodRollover_def periodConfigured_def totalCheck_def periodCheck_def
        debit_def two inc)
qed

lemma routes_committed_single:
  "routes st = [r] \<Longrightarrow>
   routes (committed e st 0 m u) =
     [r\<lparr>modelUsage := JObj (AList.update m (usageToJs u) (plainObjectOrEmpty (modelUsage r)))\<rparr>]"
  by (simp add: committed_def Let_def)

lemma total_scenario:
  "(let st0 = \<lparr>routes = [\<lparr>id_field = ''r'', routeId = [],
                      modelLimits = JObj [(''m'', JObj [(''total'', JNum (Finite 2))])],
                      modelUsage = JObj []\<rparr>], disk = d\<rparr>;
        c1 = consumeRoutingModelQuota e st0 ''r'' ''m'';
        c2 = consumeRoutingModelQuota e (snd c1) ''r'' ''m'';
        c3 = consumeRoutingModelQuota e (snd c2) ''r'' ''m''
    in fst c1 = Consumed (Finite 1) (Finite 0) \<and> fst c2 = Consumed (Finite 2) (Finite 0)
       \<and> fst c3 = TotalExceeded (Finite 2) (Finite 2) \<and> snd c3 = snd c2)"
proof -
  define R where "R = (\<lambda>kvs. \<lparr>id_field = ''r'', routeId = [],
                      modelLimits = JObj [(''m'', JObj [(''total'', JNum (Finite 2))])],
                      modelUsage = JObj kvs\<rparr>)"
  define U where "U = (\<lambda>n :: rat. \<lparr>totalUsed = Finite n, periodUsed = Finite 0, lastReset = Finite 0\<rparr>)"
  define st0 where "st0 = \<lparr>routes = [R []], disk = d\<rparr>"
  define st1 where "st1 = committed e st0 0 ''m'' (U 1)"
  define st2 where "st2 = committed e st1 0 ''m'' (U 2)"
  have r0: "routes st0 = [R []]" by (simp add: st0_def)
  have r1: "routes st1 = [R [(''m'', usageToJs (U 1))]]"
    unfolding st1_def routes_committed_single[OF r0] by (simp add: R_def)
  have r2: "routes st2 = [R [(''m'', usageToJs (U 2))]]"
    unfolding st2_def routes_committed_single[OF r1] by (simp add: R_def)
  have u0: "normalizeUsageEntry (Number_str e) (js_get (JObj []) ''m'')
              = \<lparr>totalUsed = Finite (of_nat 0), periodUsed = Finite 0, lastReset = Finite 0\<rparr>"
    by (simp add: normalizeUsageEntry_def)
  have u1: "normalizeUsageEntry (Number_str e) (js_get (JObj [(''m'', usageToJs (U 1))]) ''m'')
              = \<lparr>totalUsed = Finite (of_nat 1), periodUsed = Finite 0, lastReset = Finite 0\<rparr>"
    using normalize_usageToJs_nat[of "Number_str e" 1 0 0] by (simp add: U_def)
  have u2: "normalizeUsageEntry (Number_str e) (js_get (JObj [(''m'', usageToJs (U 2))]) ''m'')
              = \<lparr>totalUsed = Finite (of_nat 2), periodUsed = Finite 0, lastReset = Finite 0\<rparr>"
    using normalize_usageToJs_nat[of "Number_str e" 2 0 0] by (simp add: U_def)
  have c1: "consumeRoutingModelQuota e st0 ''r'' ''m'' = (Consumed (Finite 1) (Finite 0), st1)"
    using total2_step[OF r0[unfolded R_def] u0] by (simp add: st1_def U_def)
  have c2: "consumeRoutingModelQuota e st1 ''r'' ''m'' = (Consumed (Finite 2) (Finite 0), st2)"
    using total2_step[OF r1[unfolded R_def] u1] by (simp add: st2_def U_def)
  have c3: "consumeRoutingModelQuota e st2 ''r'' ''m'' = (TotalExceeded (Finite 2) (Finite 2), st2)"
    using total2_step[OF r2[unfolded R_def] u2] by simp
  show ?thesis
    unfolding Let_def st0_def[unfolded R_def, symmetric] c1 snd_conv fst_conv c2 c3
    by simp
qed

text \<open>
  C1, as stated, fails: a limit with \<open>total = 2\<close> that also carries an \<open>expireAt\<close> in the
  past rejects with \<open>expired\<close> whether \<open>totalUsed\<close> is below the total (0) or has reached
  it (2); a limit with \<open>total = 5\<close> whose period limit is used up rejects with
  \<open>period_exceeded\<close> although \<open>totalUsed = 1 < 5\<close>; and with \<open>total = 2^53 + 2\<close> and
  \<open>totalUsed = 2^53\<close> the request is allowed, but \<open>totalUsed\<close> stays \<open>2^53\<close>, since that is
  what the addition of doubles gives for \<open>2^53 + 1\<close>.
\<close>

theorem C1_total_quota_counterexample:
  "normalizeLimitEntry (Number_str env0)
     (limitValue (gw_m (JObj [(''total'', JNum (Finite 2)), (''expireAt'', JNum (Finite 1))])
                       (JNum (Finite 0))) 0 ''m'')
     = Some \<lparr>lim_total = Some (Finite 2), lim_period = None, lim_periodLimit = None,
             lim_expireAt = Some (Finite 1)\<rparr>
 \<and> consumeRoutingModelQuota env0
       (gw_m (JObj [(''total'', JNum (Finite 2)), (''expireAt'', JNum (Finite 1))]) (JNum (Finite 0)))
       ''r1'' ''m''
     = (Expired (Finite 1),
        gw_m (JObj [(''total'', JNum (Finite 2)), (''expireAt'', JNum (Finite 1))]) (JNum (Finite 0)))
 \<and> consumeRoutingModelQuota env0
       (gw_m (JObj [(''total'', JNum (Finite 2)), (''expireAt'', JNum (Finite 1))]) (JNum (Finite 2)))
       ''r1'' ''m''
     = (Expired (Finite 1),
        gw_m (JObj [(''total'', JNum (Finite 2)), (''expireAt'', JNum (Finite 1))]) (JNum (Finite 2)))
 \<and> fst (consumeRoutingModelQuota env0
       (gw_m (JObj [(''total'', JNum (Finite 5)), (''period'', JStr ''daily''),
                    (''periodLimit'', JNum (Finite 1))])
             (JObj [(''totalUsed'', JNum (Finite 1)), (''periodUsed'', JNum (Finite 1)),
                    (''lastReset'', JNum (Finite 1793750400000))])) ''r1'' ''m'')
     = PeriodExceeded ''daily'' (Finite 1) (Finite 1)
 \<and> consumeRoutingModelQuota env0
       (gw_m (JObj [(''total'', JNum (Finite 9007199254740994))]) (JNum (Finite 9007199254740992)))
       ''r1'' ''m''
     = (Consumed (Finite 9007199254740992) (Finite 0),
        committed env0
          (gw_m (JObj [(''total'', JNum (Finite 9007199254740994))])
                (JNum (Finite 9007199254740992))) 0 ''m''
          \<lparr>totalUsed = Finite 9007199254740992, periodUsed = Finite 0, lastReset = Finite 0\<rparr>)"
proof -
  have stuck: "roundDouble 9007199254740993 = Finite 9007199254740992"
    using roundDouble_2_53_plus_1 by simp
  show ?thesis
    by (simp add: quota_defs sample_defs Let_def stuck)
qed

text \<open>
  C1, amended. For a route that is found and a model whose normalized limit has
  \<open>total = t\<close> and is not past its \<open>expireAt\<close>: once \<open>totalUsed >= t\<close> the check rejects
  with \<open>total_exceeded\<close>, reporting \<open>t\<close> and the current \<open>totalUsed\<close>, and leaves the
  gateway as it was; and when the period limit (if one is configured) is not used up
  after the period rollover, the check allows the request iff not \<open>totalUsed >= t\<close> on
  entry, which for numbers other than \<open>NaN\<close> is \<open>totalUsed < t\<close>, and then reports and
  stores \<open>totalUsed + 1\<close> as the addition of doubles gives it: exactly \<open>totalUsed + 1\<close> for
  a whole \<open>totalUsed\<close> below \<open>2^53\<close>, while at \<open>2^53\<close> the sum is \<open>2^53\<close> again. Hence a route
  with \<open>modelLimits["m"] = {total: 2}\<close> and no usage admits two requests for \<open>m\<close> and
  rejects the third with \<open>total_exceeded\<close>, limit 2 and \<open>totalUsed\<close> 2, changing nothing.
\<close>

theorem C1_total_quota:
  assumes "getRoutingRouteById (routes st) rid = Some i"
    and "normalizeLimitEntry (Number_str e) (limitValue st i m) = Some lc"
    and "lim_total lc = Some t"
    and "expiryCheck e lc = None"
    and "u = normalizeUsageEntry (Number_str e) (usageValue st i m)"
  shows "(js_ge (totalUsed u) t \<longrightarrow>
            consumeRoutingModelQuota e st rid m = (TotalExceeded t (totalUsed u), st))
       \<and> (periodCheck lc (periodRollover e lc u) = None \<longrightarrow>
            (allowed (fst (consumeRoutingModelQuota e st rid m)) \<longleftrightarrow> \<not> js_ge (totalUsed u) t)
          \<and> (\<not> js_ge (totalUsed u) t \<longrightarrow>
               (\<exists>p. fst (consumeRoutingModelQuota e st rid m)
                      = Consumed (js_add (totalUsed u) (Finite 1)) p)
             \<and> js_get (usageValue (snd (consumeRoutingModelQuota e st rid m)) i m) ''totalUsed''
                 = JNum (js_add (totalUsed u) (Finite 1))))
       \<and> (totalUsed u \<noteq> NaN \<and> t \<noteq> NaN \<longrightarrow>
            (\<not> js_ge (totalUsed u) t \<longleftrightarrow> js_lt (totalUsed u) t))
       \<and> (\<forall>n < 2 ^ 53. js_add (Finite (of_nat n)) (Finite 1) = Finite (of_nat n + 1))
       \<and> js_add (Finite (2 ^ 53)) (Finite 1) = Finite (2 ^ 53)
       \<and> (let st0 = \<lparr>routes = [\<lparr>id_field = ''r'', routeId = [],
                        modelLimits = JObj [(''m'', JObj [(''total'', JNum (Finite 2))])],
                        modelUsage = JObj []\<rparr>], disk = disk st\<rparr>;
               c1 = consumeRoutingModelQuota e st0 ''r'' ''m'';
               c2 = consumeRoutingModelQuota e (snd c1) ''r'' ''m'';
               c3 = consumeRoutingModelQuota e (snd c2) ''r'' ''m''
           in fst c1 = Consumed (Finite 1) (Finite 0) \<and> fst c2 = Consumed (Finite 2) (Finite 0)
              \<and> fst c3 = TotalExceeded (Finite 2) (Finite 2) \<and> snd c3 = snd c2)"
proof -
  have len: "i < length (routes st)" using assms(1) by (rule getRoutingRouteById_less)
  note unf = consume_unfold[OF assms(1,2,4), folded assms(5)]
  have general: "(js_ge (totalUsed u) t \<longrightarrow>
            consumeRoutingModelQuota e st rid m = (TotalExceeded t (totalUsed u), st))
       \<and> (periodCheck lc (periodRollover e lc u) = None \<longrightarrow>
            (allowed (fst (consumeRoutingModelQuota e st rid m)) \<longleftrightarrow> \<not> js_ge (totalUsed u) t)
          \<and> (\<not> js_ge (totalUsed u) t \<longrightarrow>
               (\<exists>p. fst (consumeRoutingModelQuota e st rid m)
                      = Consumed (js_add (totalUsed u) (Finite 1)) p)
             \<and> js_get (usageValue (snd (consumeRoutingModelQuota e st rid m)) i m) ''totalUsed''
                 = JNum (js_add (totalUsed u) (Finite 1))))"
    using assms(3) len
    by (auto simp: unf Let_def totalCheck_def usageValue_committed usageToJs_def split: option.splits)
  have cmp: "totalUsed u \<noteq> NaN \<and> t \<noteq> NaN \<longrightarrow>
            (\<not> js_ge (totalUsed u) t \<longleftrightarrow> js_lt (totalUsed u) t)"
    using js_ge_iff_not_lt[of "totalUsed u" t] by blast
  have exact: "\<forall>n < 2 ^ 53. js_add (Finite (of_nat n)) (Finite 1) = Finite (of_nat n + 1)"
    using js_add_one_exact by blast
  from general cmp exact js_add_one_stuck total_scenario[of "disk st" e]
  show ?thesis by (intro conjI) blast+
qed

theorem C1_total_quota_witness:
  "getRoutingRouteById (routes (gw_m (JObj [(''total'', JNum (Finite 2))]) (JNum (Finite 1)))) ''r1''
     = Some 0
 \<and> normalizeLimitEntry (Number_str env0)
      (limitValue (gw_m (JObj [(''total'', JNum (Finite 2))]) (JNum (Finite 1))) 0 ''m'')
     = Some \<lparr>lim_total = Some (Finite 2), lim_period = None, lim_periodLimit = None,
             lim_expireAt = None\<rparr>
 \<and> allowed (fst (consumeRoutingModelQuota env0
      (gw_m (JObj [(''total'', JNum (Finite 2))]) (JNum (Finite 1))) ''r1'' ''m''))
 \<and> js_get (usageValue (snd (consumeRoutingModelQuota env0
      (gw_m (JObj [(''total'', JNum (Finite 2))]) (JNum (Finite 1))) ''r1'' ''m'')) 0 ''m'') ''totalUsed''
     = JNum (Finite 2)"
proof -
  let ?G = "gw_m (JObj [(''total'', JNum (Finite 2))]) (JNum (Finite 1))"
  let ?L = "\<lparr>lim_total = Some (Finite 2), lim_period = None, lim_periodLimit = None,
             lim_expireAt = None\<rparr>"
  let ?U = "normalizeUsageEntry (Number_str env0) (usageValue ?G 0 ''m'')"
  have h1: "getRoutingRouteById (routes ?G) ''r1'' = Some 0"
    by (simp add: getRoutingRouteById_def routeKey_def gw_m_def route_m_def)
  have h2: "normalizeLimitEntry (Number_str env0) (limitValue ?G 0 ''m'') = Some ?L"
    by (simp add: quota_defs sample_defs Let_def)
  have h3: "lim_total ?L = Some (Finite 2)" by simp
  have h4: "expiryCheck env0 ?L = None" by (simp add: expiryCheck_def)
  have u: "?U = \<lparr>totalUsed = Finite 1, periodUsed = Finite 0, lastReset = Finite 0\<rparr>"
    by (simp add: quota_defs sample_defs)
  have pc: "periodCheck ?L (periodRollover env0 ?L ?U) = None"
    by (simp add: periodCheck_def periodConfigured_def)
  have lt: "\<not> js_ge (totalUsed ?U) (Finite 2)" by (simp add: u)
  note inst = C1_total_quota[OF h1 h2 h3 h4 refl, THEN conjunct2, THEN conjunct1, rule_format, OF pc]
  have a: "allowed (fst (consumeRoutingModelQuota env0 ?G ''r1'' ''m''))"
    using inst[THEN conjunct1] lt by blast
  have "js_get (usageValue (snd (consumeRoutingModelQuota env0 ?G ''r1'' ''m'')) 0 ''m'') ''totalUsed''
      = JNum (js_add (totalUsed ?U) (Finite 1))"
    using inst[THEN conjunct2, rule_format, OF lt] by blast
  then have s: "js_get (usageValue (snd (consumeRoutingModelQuota env0 ?G ''r1'' ''m'')) 0 ''m'')
      ''totalUsed'' = JNum (Finite 2)"
    by (simp add: u)
  from h1 h2 a s show ?thesis by (intro conjI)
qed

lemma periodRollover_due:
  assumes "periodConfigured lc = Some (p, pl)" "js_lt (lastReset u) (getPeriodStartTimestamp e p)"
  shows "periodRollover e lc u
       = u\<lparr>periodUsed := Finite 0, lastReset := getPeriodStartTimestamp e p\<rparr>"
  using assms by (simp add: periodRollover_def Let_def)

lemma periodRollover_none:
  "periodConfigured lc = None \<Longrightarrow> periodRollover e lc u = u"
  by (simp add: periodRollover_def)

lemma periodConfigured_None_iff:
  "periodConfigured lc = None \<longleftrightarrow> lim_period lc = None \<or> lim_periodLimit lc = None"
  by (simp add: periodConfigured_def split: option.splits)

lemma normalizeLimitObject_period:
  assumes "normalizeLimitObject Num v = Some lc"
  shows "lim_period lc = (case js_get v ''period'' of
                      JStr p \<Rightarrow> if p \<in> set [''daily'', ''weekly'', ''monthly''] then Some p else None
                    | _ \<Rightarrow> None)"
proof -
  define per where "per = (case js_get v ''period'' of
                      JStr p \<Rightarrow> if p \<in> set [''daily'', ''weekly'', ''monthly''] then Some p else None
                    | _ \<Rightarrow> None)"
  have "normalizeLimitObject Num v =
     (let totalLimit = (if isSet (js_get v ''total'')
                   then parseNonNegativeInt Num Some (js_get v ''total'') None else None);
          periodLimit = (if per \<noteq> None \<and> isSet (js_get v ''periodLimit'')
                         then parseNonNegativeInt Num Some (js_get v ''periodLimit'') None
                         else None);
          expireAt = (if isSet (js_get v ''expireAt'')
                      then parseNonNegativeInt Num Some (js_get v ''expireAt'') None else None)
      in if totalLimit = None \<and> periodLimit = None \<and> expireAt = None then None
         else Some \<lparr>lim_total = totalLimit, lim_period = per,
                    lim_periodLimit = periodLimit, lim_expireAt = expireAt\<rparr>)"
    unfolding normalizeLimitObject_def per_def Let_def by (rule refl)
  with assms have "lim_period lc = per"
    unfolding Let_def by (metis limit_entry.select_convs(2) option.distinct(1) option.inject)
  then show ?thesis by (simp only: per_def)
qed

lemma period_of_normalized:
  assumes "normalizeLimitEntry Num v = Some lc" "periodConfigured lc = Some (p, pl)"
  shows "p = ''daily'' \<or> p = ''weekly'' \<or> p = ''monthly''"
proof -
  have lp: "lim_period lc = Some p"
    using assms(2) by (simp add: periodConfigured_def split: option.splits)
  have obj: "normalizeLimitObject Num v = Some lc"
  proof (cases v)
    case (JNum n)
    with assms(1) lp show ?thesis by (auto simp: normalizeLimitEntry_def)
  qed (use assms(1) in \<open>simp_all add: normalizeLimitEntry_def\<close>)
  from normalizeLimitObject_period[OF obj] lp
  have "(case js_get v ''period'' of
           JStr q \<Rightarrow> if q \<in> set [''daily'', ''weekly'', ''monthly''] then Some q else None
         | _ \<Rightarrow> None) = Some p" by simp
  then have "p \<in> set [''daily'', ''weekly'', ''monthly'']"
    by (cases "js_get v ''period''") (simp_all split: if_splits)
  then show ?thesis by simp
qed

lemma weekly_start:
  assumes "0 \<le> nowDay e" "nowDay e \<le> 6"
  shows "getPeriodStartTimestamp e ''weekly'' =
         Date_ymd e (nowFullYear e) (nowMonth e) (nowDate e - (nowDay e + 6) mod 7)"
proof -
  define diff where "diff = nowDate e - nowDay e + (if nowDay e = 0 then - 6 else 1)"
  have "diff = nowDate e - (nowDay e + 6) mod 7"
    unfolding diff_def using assms by presburger
  moreover have "getPeriodStartTimestamp e ''weekly'' = Date_ymd e (nowFullYear e) (nowMonth e) diff"
    unfolding diff_def by (simp add: getPeriodStartTimestamp_def Let_def)
  ultimately show ?thesis by simp
qed

text \<open>
  C2, as stated, fails for a limit that configures a period with only a total: with the
  limit \<open>{total: 5, period: 'daily'}\<close> and the usage
  \<open>{totalUsed: 1, periodUsed: 3, lastReset: 0}\<close>, \<open>lastReset\<close> is before the start of the
  day, yet the check admits the request and stores \<open>periodUsed = 3\<close> and \<open>lastReset = 0\<close>:
  nothing is reset.
\<close>

theorem C2_period_rollover_counterexample:
  "normalizeLimitEntry (Number_str env0)
     (limitValue (gw_m (JObj [(''total'', JNum (Finite 5)), (''period'', JStr ''daily'')])
                       (JObj [(''totalUsed'', JNum (Finite 1)), (''periodUsed'', JNum (Finite 3)),
                              (''lastReset'', JNum (Finite 0))])) 0 ''m'')
     = Some \<lparr>lim_total = Some (Finite 5), lim_period = Some ''daily'', lim_periodLimit = None,
             lim_expireAt = None\<rparr>
 \<and> js_lt (Finite 0) (getPeriodStartTimestamp env0 ''daily'')
 \<and> fst (consumeRoutingModelQuota env0
       (gw_m (JObj [(''total'', JNum (Finite 5)), (''period'', JStr ''daily'')])
             (JObj [(''totalUsed'', JNum (Finite 1)), (''periodUsed'', JNum (Finite 3)),
                    (''lastReset'', JNum (Finite 0))]))
       ''r1'' ''m'')
     = Consumed (Finite 2) (Finite 3)
 \<and> usageValue (snd (consumeRoutingModelQuota env0
       (gw_m (JObj [(''total'', JNum (Finite 5)), (''period'', JStr ''daily'')])
             (JObj [(''totalUsed'', JNum (Finite 1)), (''periodUsed'', JNum (Finite 3)),
                    (''lastReset'', JNum (Finite 0))]))
       ''r1'' ''m'')) 0 ''m''
     = JObj [(''totalUsed'', JNum (Finite 2)), (''periodUsed'', JNum (Finite 3)),
             (''lastReset'', JNum (Finite 0))]"
  by (simp add: quota_defs sample_defs Let_def)

text \<open>
  C2, amended. For a route that is found and a model whose limit is not past its
  \<open>expireAt\<close>. If the limit configures a period (\<open>daily\<close>, \<open>weekly\<close> or \<open>monthly\<close>)
  together with a \<open>periodLimit\<close> and the stored \<open>lastReset\<close> is strictly before the start
  of the current period, the total and period comparisons are made on a usage entry
  with \<open>periodUsed = 0\<close> and unchanged \<open>totalUsed\<close> (so the request is rejected for the
  period only when \<open>0 >= periodLimit\<close>, reporting \<open>periodUsed\<close> 0), and an admitted
  request stores \<open>periodUsed = 1\<close>, \<open>totalUsed + 1\<close> (the sum of doubles, exact for a whole
  \<open>totalUsed\<close> below \<open>2^53\<close>) and \<open>lastReset\<close> advanced to the period start. If the limit
  lacks the period or the \<open>periodLimit\<close>, nothing is ever rolled over: the comparisons
  are made on the stored entry, and an admitted request stores \<open>periodUsed\<close> and
  \<open>lastReset\<close> as they were. The period start is the local midnight of today (daily),
  of the first of the month (monthly), and of the most recent Monday (weekly).
\<close>

theorem C2_period_rollover:
  assumes "getRoutingRouteById (routes st) rid = Some i"
    and "normalizeLimitEntry (Number_str e) (limitValue st i m) = Some lc"
    and "expiryCheck e lc = None"
    and "u = normalizeUsageEntry (Number_str e) (usageValue st i m)"
  shows "(\<forall>p pl. periodConfigured lc = Some (p, pl)
                 \<and> js_lt (lastReset u) (getPeriodStartTimestamp e p) \<longrightarrow>
           consumeRoutingModelQuota e st rid m =
             (case totalCheck lc u of
                Some t \<Rightarrow> (TotalExceeded t (totalUsed u), st)
              | None \<Rightarrow>
                  if js_ge (Finite 0) pl then (PeriodExceeded p pl (Finite 0), st)
                  else (Consumed (js_add (totalUsed u) (Finite 1)) (Finite 1),
                        committed e st i m
                          \<lparr>totalUsed = js_add (totalUsed u) (Finite 1), periodUsed = Finite 1,
                           lastReset = getPeriodStartTimestamp e p\<rparr>))
         \<and> (allowed (fst (consumeRoutingModelQuota e st rid m)) \<longrightarrow>
              usageValue (snd (consumeRoutingModelQuota e st rid m)) i m =
                usageToJs \<lparr>totalUsed = js_add (totalUsed u) (Finite 1), periodUsed = Finite 1,
                           lastReset = getPeriodStartTimestamp e p\<rparr>)
         \<and> (p = ''daily'' \<or> p = ''weekly'' \<or> p = ''monthly''))
       \<and> (periodConfigured lc = None \<longrightarrow>
            periodRollover e lc u = u
          \<and> consumeRoutingModelQuota e st rid m =
             (case totalCheck lc u of
                Some t \<Rightarrow> (TotalExceeded t (totalUsed u), st)
              | None \<Rightarrow>
                  (Consumed (js_add (totalUsed u) (Finite 1)) (periodUsed u),
                   committed e st i m (u\<lparr>totalUsed := js_add (totalUsed u) (Finite 1)\<rparr>)))
          \<and> (allowed (fst (consumeRoutingModelQuota e st rid m)) \<longrightarrow>
              usageValue (snd (consumeRoutingModelQuota e st rid m)) i m =
                usageToJs \<lparr>totalUsed = js_add (totalUsed u) (Finite 1), periodUsed = periodUsed u,
                           lastReset = lastReset u\<rparr>))
       \<and> (periodConfigured lc = None \<longleftrightarrow> lim_period lc = None \<or> lim_periodLimit lc = None)
       \<and> (\<forall>n < 2 ^ 53. js_add (Finite (of_nat n)) (Finite 1) = Finite (of_nat n + 1))
       \<and> getPeriodStartTimestamp e ''daily'' = Date_ymd e (nowFullYear e) (nowMonth e) (nowDate e)
       \<and> getPeriodStartTimestamp e ''monthly'' = Date_ymd e (nowFullYear e) (nowMonth e) 1
       \<and> (0 \<le> nowDay e \<and> nowDay e \<le> 6 \<longrightarrow>
            getPeriodStartTimestamp e ''weekly'' =
              Date_ymd e (nowFullYear e) (nowMonth e) (nowDate e - (nowDay e + 6) mod 7))"
proof -
  have len: "i < length (routes st)" using assms(1) by (rule getRoutingRouteById_less)
  note unf = consume_unfold[OF assms(1,2,3), folded assms(4)]
  have due: "consumeRoutingModelQuota e st rid m =
             (case totalCheck lc u of
                Some t \<Rightarrow> (TotalExceeded t (totalUsed u), st)
              | None \<Rightarrow>
                  if js_ge (Finite 0) pl then (PeriodExceeded p pl (Finite 0), st)
                  else (Consumed (js_add (totalUsed u) (Finite 1)) (Finite 1),
                        committed e st i m
                          \<lparr>totalUsed = js_add (totalUsed u) (Finite 1), periodUsed = Finite 1,
                           lastReset = getPeriodStartTimestamp e p\<rparr>))
         \<and> (allowed (fst (consumeRoutingModelQuota e st rid m)) \<longrightarrow>
              usageValue (snd (consumeRoutingModelQuota e st rid m)) i m =
                usageToJs \<lparr>totalUsed = js_add (totalUsed u) (Finite 1), periodUsed = Finite 1,
                           lastReset = getPeriodStartTimestamp e p\<rparr>)
         \<and> (p = ''daily'' \<or> p = ''weekly'' \<or> p = ''monthly'')"
    if pc: "periodConfigured lc = Some (p, pl)"
      and lr: "js_lt (lastReset u) (getPeriodStartTimestamp e p)" for p pl
  proof -
    let ?u' = "u\<lparr>periodUsed := Finite 0, lastReset := getPeriodStartTimestamp e p\<rparr>"
    have roll: "periodRollover e lc u = ?u'"
      using pc lr by (rule periodRollover_due)
    have tc: "totalCheck lc ?u' = totalCheck lc u"
      by (simp add: totalCheck_def split: option.splits)
    have pck: "periodCheck lc ?u' = (if js_ge (Finite 0) pl then Some (p, pl) else None)"
      using pc by (simp add: periodCheck_def)
    have db: "debit lc ?u' = \<lparr>totalUsed = js_add (totalUsed u) (Finite 1), periodUsed = Finite 1,
                                lastReset = getPeriodStartTimestamp e p\<rparr>"
      using pc by (simp add: debit_def Let_def)
    have main: "consumeRoutingModelQuota e st rid m =
             (case totalCheck lc u of
                Some t \<Rightarrow> (TotalExceeded t (totalUsed u), st)
              | None \<Rightarrow>
                  if js_ge (Finite 0) pl then (PeriodExceeded p pl (Finite 0), st)
                  else (Consumed (js_add (totalUsed u) (Finite 1)) (Finite 1),
                        committed e st i m
                          \<lparr>totalUsed = js_add (totalUsed u) (Finite 1), periodUsed = Finite 1,
                           lastReset = getPeriodStartTimestamp e p\<rparr>))"
      unfolding unf roll Let_def tc pck db by (simp split: option.splits)
    have stored: "allowed (fst (consumeRoutingModelQuota e st rid m)) \<longrightarrow>
              usageValue (snd (consumeRoutingModelQuota e st rid m)) i m =
                usageToJs \<lparr>totalUsed = js_add (totalUsed u) (Finite 1), periodUsed = Finite 1,
                           lastReset = getPeriodStartTimestamp e p\<rparr>"
      unfolding main using len by (simp add: usageValue_committed split: option.splits)
    have per: "p = ''daily'' \<or> p = ''weekly'' \<or> p = ''monthly''"
      using assms(2) pc by (rule period_of_normalized)
    from main stored per show ?thesis by (intro conjI)
  qed
  have none: "periodRollover e lc u = u
          \<and> consumeRoutingModelQuota e st rid m =
             (case totalCheck lc u of
                Some t \<Rightarrow> (TotalExceeded t (totalUsed u), st)
              | None \<Rightarrow>
                  (Consumed (js_add (totalUsed u) (Finite 1)) (periodUsed u),
                   committed e st i m (u\<lparr>totalUsed := js_add (totalUsed u) (Finite 1)\<rparr>)))
          \<and> (allowed (fst (consumeRoutingModelQuota e st rid m)) \<longrightarrow>
              usageValue (snd (consumeRoutingModelQuota e st rid m)) i m =
                usageToJs \<lparr>totalUsed = js_add (totalUsed u) (Finite 1), periodUsed = periodUsed u,
                           lastReset = lastReset u\<rparr>)"
    if pc: "periodConfigured lc = None"
  proof -
    have roll: "periodRollover e lc u = u" using pc by (rule periodRollover_none)
    have pck: "periodCheck lc u = None" using pc by (simp add: periodCheck_def)
    have db: "debit lc u = u\<lparr>totalUsed := js_add (totalUsed u) (Finite 1)\<rparr>"
      using pc by (simp add: debit_def Let_def)
    have main: "consumeRoutingModelQuota e st rid m =
             (case totalCheck lc u of
                Some t \<Rightarrow> (TotalExceeded t (totalUsed u), st)
              | None \<Rightarrow>
                  (Consumed (js_add (totalUsed u) (Finite 1)) (periodUsed u),
                   committed e st i m (u\<lparr>totalUsed := js_add (totalUsed u) (Finite 1)\<rparr>)))"
      unfolding unf roll Let_def pck db by (simp split: option.splits)
    have stored: "allowed (fst (consumeRoutingModelQuota e st rid m)) \<longrightarrow>
              usageValue (snd (consumeRoutingModelQuota e st rid m)) i m =
                usageToJs \<lparr>totalUsed = js_add (totalUsed u) (Finite 1), periodUsed = periodUsed u,
                           lastReset = lastReset u\<rparr>"
      unfolding main using len
      by (simp add: usageValue_committed usageToJs_def split: option.splits)
    from roll main stored show ?thesis by (intro conjI)
  qed
  have exact: "\<forall>n < 2 ^ 53. js_add (Finite (of_nat n)) (Finite 1) = Finite (of_nat n + 1)"
    using js_add_one_exact by blast
  have d: "getPeriodStartTimestamp e ''daily'' = Date_ymd e (nowFullYear e) (nowMonth e) (nowDate e)"
    and mo: "getPeriodStartTimestamp e ''monthly'' = Date_ymd e (nowFullYear e) (nowMonth e) 1"
    by (simp_all add: getPeriodStartTimestamp_def)
  have wk: "0 \<le> nowDay e \<and> nowDay e \<le> 6 \<longrightarrow>
            getPeriodStartTimestamp e ''weekly'' =
              Date_ymd e (nowFullYear e) (nowMonth e) (nowDate e - (nowDay e + 6) mod 7)"
    using weekly_start[of e] by simp
  from due none periodConfigured_None_iff[of lc] exact d mo wk
  show ?thesis by (intro conjI allI impI) blast+
qed

theorem C2_period_rollover_witness:
  "expiryCheck env0 \<lparr>lim_total = Some (Finite 5), lim_period = Some ''daily'',
                     lim_periodLimit = Some (Finite 2), lim_expireAt = None\<rparr> = None
 \<and> js_lt (lastReset (normalizeUsageEntry (Number_str env0)
      (usageValue (gw_m (JObj [(''total'', JNum (Finite 5)), (''period'', JStr ''daily''),
                               (''periodLimit'', JNum (Finite 2))])
                        (JObj [(''totalUsed'', JNum (Finite 1)), (''periodUsed'', JNum (Finite 2)),
                               (''lastReset'', JNum (Finite 0))])) 0 ''m'')))
     (getPeriodStartTimestamp env0 ''daily'')
 \<and> fst (consumeRoutingModelQuota env0
       (gw_m (JObj [(''total'', JNum (Finite 5)), (''period'', JStr ''daily''),
                    (''periodLimit'', JNum (Finite 2))])
             (JObj [(''totalUsed'', JNum (Finite 1)), (''periodUsed'', JNum (Finite 2)),
                    (''lastReset'', JNum (Finite 0))]))
       ''r1'' ''m'')
     = Consumed (Finite 2) (Finite 1)
 \<and> usageValue (snd (consumeRoutingModelQuota env0
       (gw_m (JObj [(''total'', JNum (Finite 5)), (''period'', JStr ''daily''),
                    (''periodLimit'', JNum (Finite 2))])
             (JObj [(''totalUsed'', JNum (Finite 1)), (''periodUsed'', JNum (Finite 2)),
                    (''lastReset'', JNum (Finite 0))]))
       ''r1'' ''m'')) 0 ''m''
     = JObj [(''totalUsed'', JNum (Finite 2)), (''periodUsed'', JNum (Finite 1)),
             (''lastReset'', JNum (Finite 1793750400000))]"
proof -
  let ?G = "gw_m (JObj [(''total'', JNum (Finite 5)), (''period'', JStr ''daily''),
                    (''periodLimit'', JNum (Finite 2))])
             (JObj [(''totalUsed'', JNum (Finite 1)), (''periodUsed'', JNum (Finite 2)),
                    (''lastReset'', JNum (Finite 0))])"
  let ?L = "\<lparr>lim_total = Some (Finite 5), lim_period = Some ''daily'',
             lim_periodLimit = Some (Finite 2), lim_expireAt = None\<rparr>"
  let ?U = "normalizeUsageEntry (Number_str env0) (usageValue ?G 0 ''m'')"
  have h1: "getRoutingRouteById (routes ?G) ''r1'' = Some 0"
    by (simp add: getRoutingRouteById_def routeKey_def gw_m_def route_m_def)
  have h2: "normalizeLimitEntry (Number_str env0) (limitValue ?G 0 ''m'') = Some ?L"
    by (simp add: quota_defs sample_defs Let_def)
  have h3: "periodConfigured ?L = Some (''daily'', Finite 2)" by (simp add: periodConfigured_def)
  have h4: "expiryCheck env0 ?L = None" by (simp add: expiryCheck_def)
  have u: "?U = \<lparr>totalUsed = Finite 1, periodUsed = Finite 2, lastReset = Finite 0\<rparr>"
    by (simp add: quota_defs sample_defs)
  have start: "getPeriodStartTimestamp env0 ''daily'' = Finite 1793750400000"
    by (simp add: sample_defs Let_def)
  have h6: "js_lt (lastReset ?U) (getPeriodStartTimestamp env0 ''daily'')"
    by (simp add: u start)
  have tc: "totalCheck ?L ?U = None" by (simp add: u totalCheck_def)
  from h3 h6 have pre: "periodConfigured ?L = Some (''daily'', Finite 2)
      \<and> js_lt (lastReset ?U) (getPeriodStartTimestamp env0 ''daily'')" by (rule conjI)
  note inst = C2_period_rollover[OF h1 h2 h4 refl, THEN conjunct1, rule_format, OF pre]
  have res: "fst (consumeRoutingModelQuota env0 ?G ''r1'' ''m'') = Consumed (Finite 2) (Finite 1)"
    unfolding inst[THEN conjunct1] tc by (simp add: u)
  then have "allowed (fst (consumeRoutingModelQuota env0 ?G ''r1'' ''m''))"
    by simp
  with inst[THEN conjunct2, THEN conjunct1]
  have "usageValue (snd (consumeRoutingModelQuota env0 ?G ''r1'' ''m'')) 0 ''m'' =
          usageToJs \<lparr>totalUsed = js_add (totalUsed ?U) (Finite 1), periodUsed = Finite 1,
                     lastReset = getPeriodStartTimestamp env0 ''daily''\<rparr>"
    by blast
  then have stored: "usageValue (snd (consumeRoutingModelQuota env0 ?G ''r1'' ''m'')) 0 ''m'' =
      JObj [(''totalUsed'', JNum (Finite 2)), (''periodUsed'', JNum (Finite 1)),
            (''lastReset'', JNum (Finite 1793750400000))]"
    by (simp add: u start usageToJs_def)
  from h4 h6 res stored show ?thesis by (intro conjI)
qed

section \<open>Legacy number forms\<close>

text \<open>
  The outcome of the check depends on the stored limit only through its normal form.
\<close>

lemma consume_withLimit_cong:
  assumes "normalizeLimitEntry (Number_str e) v1 = normalizeLimitEntry (Number_str e) v2"
  shows "fst (consumeRoutingModelQuota e (withLimit st j m v1) rid m')
       = fst (consumeRoutingModelQuota e (withLimit st j m v2) rid m')"
proof (cases "j < length (routes st)")
  case False
  then show ?thesis by (simp add: withLimit_def list_update_beyond)
next
  case True
  have key: "\<And>v. getRoutingRouteById (routes (withLimit st j m v)) rid = getRoutingRouteById (routes st) rid"
    using True by (simp add: withLimit_def getRoutingRouteById_def routeKey_def findIndex_update_same)
  show ?thesis
  proof (cases "getRoutingRouteById (routes st) rid")
    case None
    then show ?thesis by (simp add: consumeRoutingModelQuota_def key)
  next
    case (Some i)
    note found = Some
    have lim: "normalizeLimitEntry (Number_str e) (limitValue (withLimit st j m v1) i m')
             = normalizeLimitEntry (Number_str e) (limitValue (withLimit st j m v2) i m')"
      using True assms
      by (cases "i = j"; cases "m' = m") (simp_all add: limitValue_def withLimit_def update_conv')
    have us: "\<And>v. usageValue (withLimit st j m v) i m' = usageValue st i m'"
      using True by (cases "i = j") (simp_all add: usageValue_def withLimit_def)
    show ?thesis
    proof (cases "normalizeLimitEntry (Number_str e) (limitValue (withLimit st j m v2) i m')")
      case None
      then show ?thesis using lim found
        by (simp add: consumeRoutingModelQuota_def key limitValue_def Let_def)
    next
      case (Some lc)
      note lcs = Some
      show ?thesis
      proof (cases "expiryCheck e lc")
        case None
        have k1: "getRoutingRouteById (routes (withLimit st j m v1)) rid = Some i"
          and k2: "getRoutingRouteById (routes (withLimit st j m v2)) rid = Some i"
          using key found by simp_all
        have l1: "normalizeLimitEntry (Number_str e) (limitValue (withLimit st j m v1) i m') = Some lc"
          using lim lcs by simp
        show ?thesis
          by (simp add: consume_unfold[OF k1 l1 None] consume_unfold[OF k2 lcs None] us Let_def
              split: option.splits prod.splits)
      next
        case (Some x)
        then show ?thesis using lim lcs found
          by (simp add: consumeRoutingModelQuota_def key limitValue_def Let_def)
      qed
    qed
  qed
qed

lemma floor_five_halves: "\<lfloor>5 / 2 :: rat\<rfloor> = 2"
  by (rule floor_unique) simp_all

text \<open>
  C9, as stated for every number, fails: the bare limit \<open>-1\<close> normalizes to a limit with
  \<open>total = -1\<close> while \<open>{total: -1}\<close> normalizes to no limit at all; the bare usage \<open>-1\<close>
  normalizes to \<open>totalUsed = -1\<close> while \<open>{totalUsed: -1}\<close> normalizes to \<open>totalUsed = 0\<close>;
  the bare limit \<open>2.5\<close> keeps \<open>total = 2.5\<close> while \<open>{total: 2.5}\<close> gives \<open>total = 2\<close>; and
  the bare limit \<open>Infinity\<close>, as a literal such as \<open>1e999\<close> is read, is a limit with
  \<open>total = Infinity\<close> while \<open>{total: Infinity}\<close> is no limit at all.
\<close>

theorem C9_legacy_forms_counterexample:
  "normalizeLimitEntry Number_digits (JNum (Finite (- 1))) =
     Some \<lparr>lim_total = Some (Finite (- 1)), lim_period = None, lim_periodLimit = None,
            lim_expireAt = None\<rparr>
 \<and> normalizeLimitEntry Number_digits (JObj [(''total'', JNum (Finite (- 1)))]) = None
 \<and> normalizeUsageEntry Number_digits (JNum (Finite (- 1)))
     = \<lparr>totalUsed = Finite (- 1), periodUsed = Finite 0, lastReset = Finite 0\<rparr>
 \<and> normalizeUsageEntry Number_digits (JObj [(''totalUsed'', JNum (Finite (- 1)))])
     = \<lparr>totalUsed = Finite 0, periodUsed = Finite 0, lastReset = Finite 0\<rparr>
 \<and> normalizeLimitEntry Number_digits (JNum (Finite (5 / 2))) =
     Some \<lparr>lim_total = Some (Finite (5 / 2)), lim_period = None, lim_periodLimit = None,
            lim_expireAt = None\<rparr>
 \<and> normalizeLimitEntry Number_digits (JObj [(''total'', JNum (Finite (5 / 2)))]) =
     Some \<lparr>lim_total = Some (Finite 2), lim_period = None, lim_periodLimit = None,
            lim_expireAt = None\<rparr>
 \<and> normalizeLimitEntry Number_digits (JNum Infinity) =
     Some \<lparr>lim_total = Some Infinity, lim_period = None, lim_periodLimit = None,
            lim_expireAt = None\<rparr>
 \<and> normalizeLimitEntry Number_digits (JObj [(''total'', JNum Infinity)]) = None"
  by (simp add: normalizeLimitEntry_def normalizeLimitObject_def isSet_def normalizeUsageEntry_def
      parseNonNegativeInt_def Let_def floor_five_halves)

text \<open>
  C9, amended. For every stored number \<open>n\<close> that is a non-negative whole finite double:
  the bare limit \<open>n\<close> normalizes to the same limit as \<open>{total: n}\<close> and as
  \<open>{total: n, period: null, periodLimit: null, expireAt: null}\<close>, namely a total of \<open>n\<close>
  and nothing else; the quota check answers the same whichever of the two forms a route
  stores for a model; and the bare usage \<open>n\<close> normalizes to the same entry as
  \<open>{totalUsed: n}\<close>, namely \<open>{totalUsed: n, periodUsed: 0, lastReset: 0}\<close>. A non-negative
  integer literal of the document is read as such a number (itself below \<open>2^53\<close>, the
  nearest double above) unless it is read as \<open>Infinity\<close>, as every literal from
  \<open>2^1024\<close> on is; for \<open>Infinity\<close> the two forms differ.
\<close>

theorem C9_legacy_forms:
  "normalizeLimitEntry Num (JNum (Finite (of_nat n)))
     = normalizeLimitEntry Num (JObj [(''total'', JNum (Finite (of_nat n)))])
 \<and> normalizeLimitEntry Num (JNum (Finite (of_nat n))) =
     normalizeLimitEntry Num (JObj [(''total'', JNum (Finite (of_nat n))), (''period'', JNull),
       (''periodLimit'', JNull), (''expireAt'', JNull)])
 \<and> normalizeLimitEntry Num (JNum (Finite (of_nat n))) =
     Some \<lparr>lim_total = Some (Finite (of_nat n)), lim_period = None, lim_periodLimit = None,
            lim_expireAt = None\<rparr>
 \<and> normalizeUsageEntry Num (JNum (Finite (of_nat n))) =
     normalizeUsageEntry Num (JObj [(''totalUsed'', JNum (Finite (of_nat n)))])
 \<and> normalizeUsageEntry Num (JNum (Finite (of_nat n)))
     = \<lparr>totalUsed = Finite (of_nat n), periodUsed = Finite 0, lastReset = Finite 0\<rparr>
 \<and> fst (consumeRoutingModelQuota e (withLimit st j m (JNum (Finite (of_nat n)))) rid m')
   = fst (consumeRoutingModelQuota e (withLimit st j m
       (JObj [(''total'', JNum (Finite (of_nat n))), (''period'', JNull), (''periodLimit'', JNull),
              (''expireAt'', JNull)])) rid m')
 \<and> (roundDouble (of_nat n) = Infinity \<or> (\<exists>k. roundDouble (of_nat n) = Finite (of_nat k)))
 \<and> (n \<le> 2 ^ 53 \<longrightarrow> roundDouble (of_nat n) = Finite (of_nat n))
 \<and> (2 ^ 1024 \<le> n \<longrightarrow> roundDouble (of_nat n) = Infinity)
 \<and> normalizeLimitEntry Num (JNum Infinity) =
     Some \<lparr>lim_total = Some Infinity, lim_period = None, lim_periodLimit = None, lim_expireAt = None\<rparr>
 \<and> normalizeLimitEntry Num (JObj [(''total'', JNum Infinity)]) = None
 \<and> normalizeUsageEntry Num (JNum Infinity)
     = \<lparr>totalUsed = Infinity, periodUsed = Finite 0, lastReset = Finite 0\<rparr>
 \<and> normalizeUsageEntry Num (JObj [(''totalUsed'', JNum Infinity)])
     = \<lparr>totalUsed = Finite 0, periodUsed = Finite 0, lastReset = Finite 0\<rparr>"
proof -
  have big: "2 ^ 1024 \<le> n \<longrightarrow> roundDouble (of_nat n) = Infinity"
  proof
    assume "2 ^ 1024 \<le> n"
    then have "(of_nat (2 ^ 1024) :: rat) \<le> of_nat n" by (simp only: of_nat_le_iff)
    then have "(2 :: rat) ^ 1024 \<le> of_nat n" by simp
    then show "roundDouble (of_nat n) = Infinity" by (rule roundDouble_overflow)
  qed
  have inf: "normalizeLimitEntry Num (JNum Infinity) =
     Some \<lparr>lim_total = Some Infinity, lim_period = None, lim_periodLimit = None, lim_expireAt = None\<rparr>"
    "normalizeLimitEntry Num (JObj [(''total'', JNum Infinity)]) = None"
    "normalizeUsageEntry Num (JNum Infinity)
     = \<lparr>totalUsed = Infinity, periodUsed = Finite 0, lastReset = Finite 0\<rparr>"
    "normalizeUsageEntry Num (JObj [(''totalUsed'', JNum Infinity)])
     = \<lparr>totalUsed = Finite 0, periodUsed = Finite 0, lastReset = Finite 0\<rparr>"
    by (simp_all add: normalizeLimitEntry_def normalizeLimitObject_def isSet_def
        normalizeUsageEntry_def parseNonNegativeInt_def Let_def)
  have cong: "fst (consumeRoutingModelQuota e (withLimit st j m (JNum (Finite (of_nat n)))) rid m')
   = fst (consumeRoutingModelQuota e (withLimit st j m
       (JObj [(''total'', JNum (Finite (of_nat n))), (''period'', JNull), (''periodLimit'', JNull),
              (''expireAt'', JNull)])) rid m')"
    by (rule consume_withLimit_cong) (simp add: limit_forms)
  have small: "n \<le> 2 ^ 53 \<longrightarrow> roundDouble (of_nat n) = Finite (of_nat n)"
    using roundDouble_nat_exact[of n] by blast
  from limit_forms(1)[of Num n, symmetric] limit_forms(2)[of Num n, symmetric] limit_forms(3)[of Num n]
    usage_forms(1)[of Num n, symmetric] usage_forms(2)[of Num n] cong roundDouble_nat_cases[of n]
    small big inf
  show ?thesis by (intro conjI)
qed

theorem C9_legacy_forms_witness:
  "normalizeLimitEntry Number_digits (JNum (Finite 5)) =
     normalizeLimitEntry Number_digits (JObj [(''total'', JNum (Finite 5))])
 \<and> normalizeUsageEntry Number_digits (JNum (Finite 5)) =
     normalizeUsageEntry Number_digits (JObj [(''totalUsed'', JNum (Finite 5))])
 \<and> fst (consumeRoutingModelQuota env0 (withLimit (gw_m JNull (JNum (Finite 5))) 0 ''m''
       (JNum (Finite 5))) ''r1'' ''m'')
   = fst (consumeRoutingModelQuota env0 (withLimit (gw_m JNull (JNum (Finite 5))) 0 ''m''
       (JObj [(''total'', JNum (Finite 5)), (''period'', JNull), (''periodLimit'', JNull),
              (''expireAt'', JNull)])) ''r1'' ''m'')
 \<and> (5 :: nat) \<le> 2 ^ 53
 \<and> roundDouble 5 = Finite 5"
proof -
  note inst = C9_legacy_forms[of Number_digits 5 env0 "gw_m JNull (JNum (Finite 5))" 0 "''m''"
      "''r1''" "''m''", unfolded of_nat_numeral]
  have le: "(5 :: nat) \<le> 2 ^ 53" by simp
  from inst[THEN conjunct1]
    inst[THEN conjunct2, THEN conjunct2, THEN conjunct2, THEN conjunct1]
    inst[THEN conjunct2, THEN conjunct2, THEN conjunct2, THEN conjunct2, THEN conjunct2, THEN conjunct1]
    le
    inst[THEN conjunct2, THEN conjunct2, THEN conjunct2, THEN conjunct2, THEN conjunct2,
      THEN conjunct2, THEN conjunct2, THEN conjunct1, rule_format, OF le]
  show ?thesis by (intro conjI)
qed

section \<open>Rejections leave the ledger alone\<close>

text \<open>
  C10. Whenever the quota check rejects a request (\<open>expired\<close>, \<open>total_exceeded\<close> or
  \<open>period_exceeded\<close>), the gateway is left as it was: the stored \<open>modelUsage\<close> of every
  route and the persisted document are unchanged, so a period rollover computed during
  a rejected check is not written back.
\<close>

theorem C10_reject_unchanged:
  "\<not> allowed (fst (consumeRoutingModelQuota e st rid m)) \<Longrightarrow>
     snd (consumeRoutingModelQuota e st rid m) = st
     \<and> reason (fst (consumeRoutingModelQuota e st rid m))
         \<in> {Some ''expired'', Some ''total_exceeded'', Some ''period_exceeded''}"
  by (auto simp: consumeRoutingModelQuota_def Let_def split: option.splits prod.splits)

theorem C10_reject_unchanged_witness:
  "fst (consumeRoutingModelQuota env0
      (gw_m (JObj [(''total'', JNum (Finite 5)), (''period'', JStr ''daily''),
                   (''periodLimit'', JNum (Finite 0))])
            (JObj [(''totalUsed'', JNum (Finite 1)), (''periodUsed'', JNum (Finite 3)),
                   (''lastReset'', JNum (Finite 0))]))
      ''r1'' ''m'') = PeriodExceeded ''daily'' (Finite 0) (Finite 0)
 \<and> snd (consumeRoutingModelQuota env0
      (gw_m (JObj [(''total'', JNum (Finite 5)), (''period'', JStr ''daily''),
                   (''periodLimit'', JNum (Finite 0))])
            (JObj [(''totalUsed'', JNum (Finite 1)), (''periodUsed'', JNum (Finite 3)),
                   (''lastReset'', JNum (Finite 0))]))
      ''r1'' ''m'')
   = gw_m (JObj [(''total'', JNum (Finite 5)), (''period'', JStr ''daily''),
                 (''periodLimit'', JNum (Finite 0))])
          (JObj [(''totalUsed'', JNum (Finite 1)), (''periodUsed'', JNum (Finite 3)),
                 (''lastReset'', JNum (Finite 0))])"
proof -
  let ?G = "gw_m (JObj [(''total'', JNum (Finite 5)), (''period'', JStr ''daily''),
                        (''periodLimit'', JNum (Finite 0))])
            (JObj [(''totalUsed'', JNum (Finite 1)), (''periodUsed'', JNum (Finite 3)),
                   (''lastReset'', JNum (Finite 0))])"
  have r: "fst (consumeRoutingModelQuota env0 ?G ''r1'' ''m'')
      = PeriodExceeded ''daily'' (Finite 0) (Finite 0)"
    by (simp add: quota_defs sample_defs Let_def)
  then have "\<not> allowed (fst (consumeRoutingModelQuota env0 ?G ''r1'' ''m''))"
    by simp
  from C10_reject_unchanged[OF this] r show ?thesis by simp
qed

section \<open>Model admission\<close>

lemma set_dedupFirst: "set (dedupFirst seen xs) = set xs - set seen"
  by (induction xs arbitrary: seen) auto

lemma distinct_dedupFirst: "distinct (dedupFirst seen xs)"
  by (induction xs arbitrary: seen) (auto simp: set_dedupFirst)

lemma set_allowedForClient:
  "set (allowedForClient r) = (set (models r) \<union> fst ` set (modelAliases r)) - {[]}"
  by (auto simp: allowedForClient_def set_dedupFirst)

lemma sorted_allowedForClient: "sorted (allowedForClient r) \<and> distinct (allowedForClient r)"
  by (simp add: allowedForClient_def distinct_dedupFirst)

lemma usageValue_committed_other:
  "k \<noteq> m \<Longrightarrow> usageValue (committed e st j m u) i k = usageValue st i k"
proof (cases "j < length (routes st)")
  case True
  assume "k \<noteq> m"
  then show ?thesis using True
    by (cases "i = j") (simp_all add: usageValue_def committed_def Let_def update_conv')
next
  case False
  then show ?thesis by (simp add: usageValue_def committed_def Let_def list_update_beyond)
qed

lemma consume_cases:
  "snd (consumeRoutingModelQuota e st rid m) = st
   \<or> (\<exists>j u. snd (consumeRoutingModelQuota e st rid m) = committed e st j m u)"
proof (cases "getRoutingRouteById (routes st) rid")
  case None
  then show ?thesis by (simp add: consumeRoutingModelQuota_def)
next
  case (Some i)
  note found = Some
  show ?thesis
  proof (cases "normalizeLimitEntry (Number_str e) (limitValue st i m)")
    case None
    then show ?thesis using found
      by (simp add: consumeRoutingModelQuota_def limitValue_def Let_def)
  next
    case (Some lc)
    note lcs = Some
    show ?thesis
    proof (cases "expiryCheck e lc")
      case None
      show ?thesis
        unfolding consume_unfold[OF found lcs None] Let_def
        by (auto split: option.splits prod.splits)
    next
      case (Some x)
      then show ?thesis using found lcs
        by (simp add: consumeRoutingModelQuota_def limitValue_def Let_def)
    qed
  qed
qed

lemma consume_other_keys:
  "k \<noteq> m \<Longrightarrow> usageValue (snd (consumeRoutingModelQuota e st rid m)) i k = usageValue st i k"
  using consume_cases[of e st rid m] by (auto simp: usageValue_committed_other)

lemma resolve_alias:
  "map_of (modelAliases r) req = Some (JStr target) \<Longrightarrow> target \<noteq> [] \<Longrightarrow>
   resolveModel r req = Inr target"
  by (auto simp: resolveModel_def dest: map_of_SomeD intro: rev_image_eqI)

lemma resolve_unknown:
  "req \<notin> set (models r) \<Longrightarrow> req \<notin> fst ` set (modelAliases r) \<Longrightarrow>
   resolveModel r req = Inl (notAllowedMessage r req)"
  by (simp add: resolveModel_def)

lemma resolve_invalid_alias:
  "req \<in> fst ` set (modelAliases r) \<Longrightarrow>
   \<not> (\<exists>target. map_of (modelAliases r) req = Some (JStr target) \<and> target \<noteq> []) \<Longrightarrow>
   resolveModel r req = Inl (''Invalid alias mapping for model: '' @ req)"
  by (auto simp: resolveModel_def split: option.splits jsv.splits)

text \<open>
  C3. For every request on a non-master route that carries messages and a model name,
  in both the Claude and the OpenAI handler. A requested model that is an alias name of
  the route is resolved to the target of the alias when that is a non-empty string:
  the quota check runs under the target, the request goes upstream with the target as
  the actual model when the check allows it (and is answered 429 otherwise), and the
  usage stored under every other name, the alias name included, is left as it was.
  When the alias has no such target the request is answered 400 (invalid alias
  mapping), nothing goes upstream and the ledger is left as it was; so for no alias
  name is anything debited under the alias name, unless the alias is its own target. A
  requested model that is neither in the route's models nor among its alias names is
  answered 400 with a message that lists the allowed names: the models and the alias
  names of the route, without duplicates and empty names, sorted and joined by commas.
\<close>

theorem C3_alias_and_allow_list:
  assumes "\<not> isMaster r" "truthy (messages body)" "model body = JStr req" "req \<noteq> []"
  shows "(map_of (modelAliases r) req = Some (JStr target) \<and> target \<noteq> [] \<longrightarrow>
           handleClaudeRequest e st (Some r) body =
             (case consumeRoutingModelQuota e st (dr_id r) target of
                (q, st') \<Rightarrow> if allowed q then (Upstream req target, st')
                            else (Respond 429 (quotaMessage e req q), st'))
         \<and> handleOpenAIRequest e st (Some r) body = handleClaudeRequest e st (Some r) body
         \<and> (\<forall>i k. k \<noteq> target \<longrightarrow>
               usageValue (snd (handleClaudeRequest e st (Some r) body)) i k = usageValue st i k))
       \<and> (req \<in> fst ` set (modelAliases r)
          \<and> \<not> (\<exists>t. map_of (modelAliases r) req = Some (JStr t) \<and> t \<noteq> []) \<longrightarrow>
           handleClaudeRequest e st (Some r) body =
             (Respond 400 (''Invalid alias mapping for model: '' @ req), st)
         \<and> handleOpenAIRequest e st (Some r) body =
             (Respond 400 (''Invalid alias mapping for model: '' @ req), st))
       \<and> (req \<in> fst ` set (modelAliases r) \<and> map_of (modelAliases r) req \<noteq> Some (JStr req) \<longrightarrow>
           (\<forall>i. usageValue (snd (handleClaudeRequest e st (Some r) body)) i req = usageValue st i req
               \<and> usageValue (snd (handleOpenAIRequest e st (Some r) body)) i req = usageValue st i req)
         \<and> (\<forall>actual. fst (handleClaudeRequest e st (Some r) body) \<noteq> Upstream actual req
                   \<and> fst (handleOpenAIRequest e st (Some r) body) \<noteq> Upstream actual req))
       \<and> (req \<notin> set (models r) \<and> req \<notin> fst ` set (modelAliases r) \<longrightarrow>
           handleClaudeRequest e st (Some r) body = (Respond 400 (notAllowedMessage r req), st)
         \<and> handleOpenAIRequest e st (Some r) body = (Respond 400 (notAllowedMessage r req), st)
         \<and> notAllowedMessage r req =
             ''Model '' @ squote @ req @ squote @
             '' is not allowed for this API key. Allowed models: '' @
             joinWith '', '' (allowedForClient r)
         \<and> set (allowedForClient r) = (set (models r) \<union> fst ` set (modelAliases r)) - {[]}
         \<and> sorted (allowedForClient r) \<and> distinct (allowedForClient r))"
proof -
  have same: "handleOpenAIRequest e st (Some r) body = handleClaudeRequest e st (Some r) body"
    by (simp add: handleOpenAIRequest_def handleClaudeRequest_def)
  have valid: "handleClaudeRequest e st (Some r) body =
             (case consumeRoutingModelQuota e st (dr_id r) t of
                (q, st') \<Rightarrow> if allowed q then (Upstream req t, st')
                            else (Respond 429 (quotaMessage e req q), st'))
         \<and> (\<forall>i k. k \<noteq> t \<longrightarrow>
               usageValue (snd (handleClaudeRequest e st (Some r) body)) i k = usageValue st i k)"
    if a: "map_of (modelAliases r) req = Some (JStr t) \<and> t \<noteq> []" for t
  proof -
    from a have res: "resolveModel r req = Inr t" by (simp add: resolve_alias)
    have h: "handleClaudeRequest e st (Some r) body =
             (case consumeRoutingModelQuota e st (dr_id r) t of
                (q, st') \<Rightarrow> if allowed q then (Upstream req t, st')
                            else (Respond 429 (quotaMessage e req q), st'))"
      using assms res by (simp add: handleClaudeRequest_def admit_def split: prod.splits)
    have "usageValue (snd (handleClaudeRequest e st (Some r) body)) i k = usageValue st i k"
      if "k \<noteq> t" for i k
      using consume_other_keys[OF that, of e st "dr_id r" i]
      unfolding h by (cases "consumeRoutingModelQuota e st (dr_id r) t") simp
    with h show ?thesis by blast
  qed
  have invalid: "handleClaudeRequest e st (Some r) body =
             (Respond 400 (''Invalid alias mapping for model: '' @ req), st)"
    if b: "req \<in> fst ` set (modelAliases r)
          \<and> \<not> (\<exists>t. map_of (modelAliases r) req = Some (JStr t) \<and> t \<noteq> [])"
  proof -
    from b have res: "resolveModel r req = Inl (''Invalid alias mapping for model: '' @ req)"
      by (simp add: resolve_invalid_alias)
    show ?thesis using assms res by (simp add: handleClaudeRequest_def admit_def)
  qed
  have never: "(\<forall>i. usageValue (snd (handleClaudeRequest e st (Some r) body)) i req = usageValue st i req)
         \<and> (\<forall>actual. fst (handleClaudeRequest e st (Some r) body) \<noteq> Upstream actual req)"
    if c: "req \<in> fst ` set (modelAliases r) \<and> map_of (modelAliases r) req \<noteq> Some (JStr req)"
  proof (cases "\<exists>t. map_of (modelAliases r) req = Some (JStr t) \<and> t \<noteq> []")
    case True
    then obtain t where t: "map_of (modelAliases r) req = Some (JStr t) \<and> t \<noteq> []" by blast
    with c have ne: "req \<noteq> t" by auto
    note v = valid[OF t]
    have "fst (handleClaudeRequest e st (Some r) body) \<noteq> Upstream actual req" for actual
      unfolding v[THEN conjunct1] using ne
      by (cases "consumeRoutingModelQuota e st (dr_id r) t") simp
    with v[THEN conjunct2] ne show ?thesis by blast
  next
    case False
    with c invalid show ?thesis by simp
  qed
  have unknown: "handleClaudeRequest e st (Some r) body = (Respond 400 (notAllowedMessage r req), st)"
    if d: "req \<notin> set (models r) \<and> req \<notin> fst ` set (modelAliases r)"
  proof -
    from d have res: "resolveModel r req = Inl (notAllowedMessage r req)" by (simp add: resolve_unknown)
    show ?thesis using assms res by (simp add: handleClaudeRequest_def admit_def)
  qed
  have msg: "notAllowedMessage r req =
             ''Model '' @ squote @ req @ squote @
             '' is not allowed for this API key. Allowed models: '' @
             joinWith '', '' (allowedForClient r)"
    by (simp add: notAllowedMessage_def)
  have srt: "sorted (allowedForClient r)" "distinct (allowedForClient r)"
    using sorted_allowedForClient by auto
  show ?thesis
    unfolding same
    using valid[of target] invalid never unknown msg set_allowedForClient[of r] srt
    by (intro conjI impI allI) blast+
qed

theorem C3_alias_and_allow_list_witness:
  "\<not> isMaster dr_alias
 \<and> handleClaudeRequest env0 gw_alias (Some dr_alias) (body_for ''fast'') =
     (Upstream ''fast'' ''gpt-5.1-codex-mini'',
      committed env0 gw_alias 0 ''gpt-5.1-codex-mini''
        \<lparr>totalUsed = Finite 1, periodUsed = Finite 0, lastReset = Finite 0\<rparr>)
 \<and> handleOpenAIRequest env0 gw_alias (Some dr_alias) (body_for ''fast'') =
     handleClaudeRequest env0 gw_alias (Some dr_alias) (body_for ''fast'')
 \<and> usageValue (snd (handleClaudeRequest env0 gw_alias (Some dr_alias) (body_for ''fast''))) 0 ''fast''
     = JUndefined
 \<and> handleOpenAIRequest env0 gw_alias (Some dr_alias_empty) (body_for ''fast'') =
     (Respond 400 ''Invalid alias mapping for model: fast'', gw_alias)
 \<and> handleOpenAIRequest env0 gw_alias (Some dr_alias) (body_for ''gpt-4'') =
     (Respond 400 (''Model '' @ squote @ ''gpt-4'' @ squote @
        '' is not allowed for this API key. Allowed models: fast, gpt-5.2''), gw_alias)"
proof -
  have h1: "\<not> isMaster dr_alias" and h1': "\<not> isMaster dr_alias_empty"
    by (simp_all add: dr_alias_def dr_alias_empty_def)
  have h2: "\<And>m. truthy (messages (body_for m))" by (simp add: body_for_def)
  have h3: "\<And>m. model (body_for m) = JStr m" by (simp add: body_for_def)
  have n1: "''fast'' \<noteq> []" and n2: "''gpt-4'' \<noteq> []" by simp_all
  have al: "map_of (modelAliases dr_alias) ''fast'' = Some (JStr ''gpt-5.1-codex-mini'')
            \<and> ''gpt-5.1-codex-mini'' \<noteq> []"
    by (simp add: dr_alias_def)
  have bad: "''fast'' \<in> fst ` set (modelAliases dr_alias_empty)
          \<and> \<not> (\<exists>t. map_of (modelAliases dr_alias_empty) ''fast'' = Some (JStr t) \<and> t \<noteq> [])"
    by (simp add: dr_alias_empty_def)
  have un: "''gpt-4'' \<notin> set (models dr_alias) \<and> ''gpt-4'' \<notin> fst ` set (modelAliases dr_alias)"
    by (simp add: dr_alias_def)
  note fast = C3_alias_and_allow_list[OF h1 h2 h3 n1, of "''gpt-5.1-codex-mini''" env0 gw_alias,
      THEN conjunct1, rule_format, OF al]
  note empty = C3_alias_and_allow_list[OF h1' h2 h3 n1, of "''gpt-5.1-codex-mini''" env0 gw_alias,
      THEN conjunct2, THEN conjunct1, rule_format, OF bad]
  note other = C3_alias_and_allow_list[OF h1 h2 h3 n2, of "''gpt-5.1-codex-mini''" env0 gw_alias,
      THEN conjunct2, THEN conjunct2, THEN conjunct2, rule_format, OF un]
  have q: "consumeRoutingModelQuota env0 gw_alias (dr_id dr_alias) ''gpt-5.1-codex-mini'' =
      (Consumed (Finite 1) (Finite 0),
       committed env0 gw_alias 0 ''gpt-5.1-codex-mini''
         \<lparr>totalUsed = Finite 1, periodUsed = Finite 0, lastReset = Finite 0\<rparr>)"
    by (simp add: quota_defs gw_alias_def dr_alias_def env0_def save_routes_def Let_def)
  have c1: "handleClaudeRequest env0 gw_alias (Some dr_alias) (body_for ''fast'') =
     (Upstream ''fast'' ''gpt-5.1-codex-mini'',
      committed env0 gw_alias 0 ''gpt-5.1-codex-mini''
        \<lparr>totalUsed = Finite 1, periodUsed = Finite 0, lastReset = Finite 0\<rparr>)"
    unfolding fast[THEN conjunct1] q by simp
  have c2: "handleOpenAIRequest env0 gw_alias (Some dr_alias) (body_for ''fast'') =
     handleClaudeRequest env0 gw_alias (Some dr_alias) (body_for ''fast'')"
    by (rule fast[THEN conjunct2, THEN conjunct1])
  have "usageValue (snd (handleClaudeRequest env0 gw_alias (Some dr_alias) (body_for ''fast''))) 0 ''fast''
          = usageValue gw_alias 0 ''fast''"
    by (rule fast[THEN conjunct2, THEN conjunct2, rule_format]) simp
  then have c3: "usageValue (snd (handleClaudeRequest env0 gw_alias (Some dr_alias) (body_for ''fast'')))
                   0 ''fast'' = JUndefined"
    by (simp add: usageValue_def gw_alias_def)
  have c5: "handleOpenAIRequest env0 gw_alias (Some dr_alias_empty) (body_for ''fast'') =
     (Respond 400 ''Invalid alias mapping for model: fast'', gw_alias)"
    using empty[THEN conjunct2] by simp
  have lst: "allowedForClient dr_alias = [''fast'', ''gpt-5.2'']"
    by (simp add: allowedForClient_def dr_alias_def)
  have c4: "handleOpenAIRequest env0 gw_alias (Some dr_alias) (body_for ''gpt-4'') =
     (Respond 400 (''Model '' @ squote @ ''gpt-4'' @ squote @
        '' is not allowed for this API key. Allowed models: fast, gpt-5.2''), gw_alias)"
    unfolding other[THEN conjunct2, THEN conjunct1]
    by (simp add: notAllowedMessage_def lst)
  from h1 c1 c2 c3 c5 c4 show ?thesis by (intro conjI)
qed

section \<open>Provider dispatch\<close>

lemma firstUsable_find: "firstUsable (providers pm) names = firstUsableName pm names"
  by (induction names) (auto simp: firstUsableName_def usable_def split: option.splits)

lemma firstUsableName_None: "firstUsableName pm names = None \<longleftrightarrow> \<not> list_ex (usable pm) names"
proof (induction names)
  case Nil
  then show ?case by (simp add: firstUsableName_def)
next
  case (Cons n ns)
  then show ?case
    by (auto simp: firstUsableName_def usable_def split: option.splits)
qed

lemma wildcardLoop_find:
  "wildcardLoop (providers pm) m mp =
     (case find (\<lambda>(pattern, names). wildcardMatches pattern m \<and> list_ex (usable pm) names) mp of
        Some (pattern, names) \<Rightarrow> firstUsableName pm names
      | None \<Rightarrow> None)"
proof (induction mp)
  case Nil
  then show ?case by simp
next
  case (Cons a mp)
  obtain pattern names where a: "a = (pattern, names)" by (cases a)
  show ?case
  proof (cases "wildcardMatches pattern m")
    case False
    then show ?thesis using Cons a by simp
  next
    case True
    show ?thesis
    proof (cases "firstUsableName pm names")
      case None
      then have "\<not> list_ex (usable pm) names" by (simp add: firstUsableName_None)
      then show ?thesis using Cons a True None by (simp add: firstUsable_find)
    next
      case (Some p)
      then have "list_ex (usable pm) names" using firstUsableName_None[of pm names] by auto
      then show ?thesis using a True Some by (simp add: firstUsable_find)
    qed
  qed
qed

lemma supportLoop_find: "supportLoop m ps = find (\<lambda>p. supportsModel p m) ps"
  by (induction ps) auto

lemma select_refines: "m \<noteq> [] \<Longrightarrow> selectProvider pm m = selectProvider_rules pm m"
  by (simp add: selectProvider_def selectProvider_rules_def rule_exact_def rule_wildcard_def
      rule_scan_def rule_fallback_def firstUsable_find wildcardLoop_find supportLoop_find Let_def
      split: option.splits list.splits)

lemma set_getEnabledProviders:
  "set (getEnabledProviders pm) = {p \<in> snd ` set (providers pm). enabled p \<and> initialized p}"
  by (auto simp: getEnabledProviders_def)

lemma sorted_getEnabledProviders: "sorted (map priority (getEnabledProviders pm))"
  by (simp add: getEnabledProviders_def)

lemma fallback_minimal:
  assumes "rule_fallback pm = Some p" "q \<in> snd ` set (providers pm)" "enabled q" "initialized q"
  shows "priority p \<le> priority q"
proof -
  obtain rest where l: "getEnabledProviders pm = p # rest"
    using assms(1) by (auto simp: rule_fallback_def split: list.splits)
  have "q \<in> set (getEnabledProviders pm)" using assms(2-4) by (simp add: set_getEnabledProviders)
  with sorted_getEnabledProviders[of pm] l show ?thesis by auto
qed

lemma usable_in: "usable pm n \<Longrightarrow> \<exists>p \<in> snd ` set (providers pm). enabled p \<and> initialized p"
  by (force simp: usable_def split: option.splits dest!: map_of_SomeD)

lemma select_None_iff:
  assumes "m \<noteq> []"
  shows "selectProvider pm m = None \<longleftrightarrow> \<not> (\<exists>p \<in> snd ` set (providers pm). enabled p \<and> initialized p)"
proof
  assume "selectProvider pm m = None"
  then have "rule_fallback pm = None"
    using assms by (simp add: select_refines selectProvider_rules_def split: option.splits)
  then have "getEnabledProviders pm = []" by (simp add: rule_fallback_def split: list.splits)
  then have "set (getEnabledProviders pm) = {}" by simp
  then show "\<not> (\<exists>p \<in> snd ` set (providers pm). enabled p \<and> initialized p)"
    unfolding set_getEnabledProviders by blast
next
  assume none: "\<not> (\<exists>p \<in> snd ` set (providers pm). enabled p \<and> initialized p)"
  then have nu: "\<And>n. \<not> usable pm n" using usable_in by blast
  have e: "getEnabledProviders pm = []"
    using none set_getEnabledProviders[of pm] by (metis (mono_tags, lifting) empty_Collect_eq set_empty)
  have f: "\<And>names. firstUsableName pm names = None"
    using nu by (simp add: firstUsableName_None list_ex_iff)
  have w: "rule_wildcard pm m = None"
    by (simp add: rule_wildcard_def f split: option.splits prod.splits)
  show "selectProvider pm m = None"
    using assms by (simp add: select_refines selectProvider_rules_def rule_exact_def f w
        rule_scan_def rule_fallback_def e split: option.splits)
qed

lemma wildcardMatches_iff:
  "wildcardMatches pattern m \<longleftrightarrow> (\<exists>pre suf. pattern = pre @ ''*'' \<and> m = pre @ suf)"
proof
  assume w: "wildcardMatches pattern m"
  then have p: "pattern = butlast pattern @ ''*''"
    by (auto simp: wildcardMatches_def endsWithStar_def dest: append_butlast_last_id[symmetric])
  from w have "take (length (butlast pattern)) m = butlast pattern"
    by (simp add: wildcardMatches_def startsWith_def)
  then have "m = butlast pattern @ drop (length (butlast pattern)) m"
    by (metis append_take_drop_id)
  with p show "\<exists>pre suf. pattern = pre @ ''*'' \<and> m = pre @ suf" by blast
next
  assume "\<exists>pre suf. pattern = pre @ ''*'' \<and> m = pre @ suf"
  then show "wildcardMatches pattern m"
    by (auto simp: wildcardMatches_def endsWithStar_def startsWith_def)
qed

lemma supportsModel_iff:
  "supportsModel p m \<longleftrightarrow>
     m \<noteq> [] \<and> (m \<in> set (supportedModels p)
                \<or> (\<exists>pattern \<in> set (supportedModels p). wildcardMatches pattern m))"
  by (auto simp: supportsModel_def list_ex_iff)


lemmas dispatch_defs = selectProvider_def selectProvider_rules_def rule_exact_def rule_wildcard_def
  rule_scan_def rule_fallback_def firstUsableName_def usable_def getEnabledProviders_def
  supportsModel_def wildcardMatches_def endsWithStar_def startsWith_def

lemmas dispatch_samples = pm_three_def pm_uninitialized_def p_kiro_def p_codex_def p_antigravity_def

text \<open>
  C6, as stated, fails in its last rule: with a single provider that is enabled but
  not initialized, an enabled provider exists and still the selection gives \<open>null\<close>,
  for a model the provider lists and for one it does not; and for the empty model name
  the selection gives \<open>null\<close> whatever the providers are.
\<close>

theorem C6_select_provider_counterexample:
  "map_of (providers pm_uninitialized) ''codex'' = Some p_codex
 \<and> enabled p_codex
 \<and> selectProvider pm_uninitialized ''gpt-5.2'' = None
 \<and> selectProvider pm_uninitialized ''llama'' = None
 \<and> selectProvider pm_three [] = None"
  by (simp add: dispatch_defs dispatch_samples)

text \<open>
  C6, amended. For every non-empty model name, \<open>selectProvider\<close> returns the provider
  chosen by the first matching rule of, in order: (1) the exact entry of the model in
  the mapping, taking the first listed name of a registered, enabled and initialized
  provider; (2) the first trailing-wildcard entry (\<open>prefix*\<close>) that matches the model
  by prefix and lists such a name; (3) the first provider, among the enabled and
  initialized ones in ascending priority order, whose \<open>supportsModel\<close> holds (the model
  is listed, or a listed trailing-wildcard pattern matches it by prefix); (4) the
  enabled and initialized provider with the lowest priority number. The selection gives
  \<open>null\<close> only when no registered provider is both enabled and initialized; for the empty
  model name it always gives \<open>null\<close>.
\<close>

theorem C6_select_provider:
  "selectProvider pm [] = None
 \<and> (m \<noteq> [] \<longrightarrow>
      selectProvider pm m = selectProvider_rules pm m
    \<and> (selectProvider pm m = None \<longleftrightarrow>
         \<not> (\<exists>p \<in> snd ` set (providers pm). enabled p \<and> initialized p)))
 \<and> (\<forall>p. supportsModel p m \<longleftrightarrow>
        m \<noteq> [] \<and> (m \<in> set (supportedModels p)
                   \<or> (\<exists>pattern \<in> set (supportedModels p). wildcardMatches pattern m)))
 \<and> (\<forall>pattern. wildcardMatches pattern m \<longleftrightarrow> (\<exists>pre suf. pattern = pre @ ''*'' \<and> m = pre @ suf))
 \<and> sorted (map priority (getEnabledProviders pm))
 \<and> set (getEnabledProviders pm) = {p \<in> snd ` set (providers pm). enabled p \<and> initialized p}
 \<and> (\<forall>p q. rule_fallback pm = Some p \<and> q \<in> snd ` set (providers pm) \<and> enabled q \<and> initialized q
        \<longrightarrow> priority p \<le> priority q)"
proof (intro conjI impI allI)
  show "selectProvider pm [] = None" by (simp add: selectProvider_def)
  show "sorted (map priority (getEnabledProviders pm))" by (rule sorted_getEnabledProviders)
  show "set (getEnabledProviders pm) = {p \<in> snd ` set (providers pm). enabled p \<and> initialized p}"
    by (rule set_getEnabledProviders)
next
  assume "m \<noteq> []"
  then show "selectProvider pm m = selectProvider_rules pm m" by (rule select_refines)
next
  assume "m \<noteq> []"
  then show "selectProvider pm m = None \<longleftrightarrow>
         \<not> (\<exists>p \<in> snd ` set (providers pm). enabled p \<and> initialized p)"
    by (rule select_None_iff)
next
  fix p
  show "supportsModel p m \<longleftrightarrow>
        m \<noteq> [] \<and> (m \<in> set (supportedModels p)
                   \<or> (\<exists>pattern \<in> set (supportedModels p). wildcardMatches pattern m))"
    by (rule supportsModel_iff)
next
  fix pattern
  show "wildcardMatches pattern m \<longleftrightarrow> (\<exists>pre suf. pattern = pre @ ''*'' \<and> m = pre @ suf)"
    by (rule wildcardMatches_iff)
next
  fix p q
  assume "rule_fallback pm = Some p \<and> q \<in> snd ` set (providers pm) \<and> enabled q \<and> initialized q"
  then show "priority p \<le> priority q" using fallback_minimal by blast
qed

theorem C6_select_provider_witness:
  "selectProvider pm_three ''gpt-5.2'' = Some p_kiro
 \<and> selectProvider pm_three ''claude-3-opus'' = Some p_kiro
 \<and> selectProvider pm_three ''gemini-pro'' = Some p_antigravity
 \<and> selectProvider pm_three ''llama'' = Some p_antigravity
 \<and> selectProvider pm_three ''llama'' \<noteq> None"
proof -
  have ne: "''gpt-5.2'' \<noteq> []" "''claude-3-opus'' \<noteq> []" "''gemini-pro'' \<noteq> []" "''llama'' \<noteq> []"
    by simp_all
  note r = C6_select_provider[THEN conjunct2, THEN conjunct1, rule_format, THEN conjunct1]
  have s: "getEnabledProviders pm_three = [p_antigravity, p_kiro]"
    by (simp add: getEnabledProviders_def dispatch_samples)
  have a: "selectProvider pm_three ''gpt-5.2'' = Some p_kiro"
    unfolding r[OF ne(1)]
    by (simp add: selectProvider_rules_def rule_exact_def firstUsableName_def usable_def
        dispatch_samples)
  have b: "selectProvider pm_three ''claude-3-opus'' = Some p_kiro"
    unfolding r[OF ne(2)]
    by (simp add: selectProvider_rules_def rule_exact_def rule_wildcard_def firstUsableName_def
        usable_def wildcardMatches_def endsWithStar_def startsWith_def dispatch_samples)
  have c: "selectProvider pm_three ''gemini-pro'' = Some p_antigravity"
    unfolding r[OF ne(3)] selectProvider_rules_def rule_scan_def rule_fallback_def s
    by (simp add: rule_exact_def rule_wildcard_def firstUsableName_def
        usable_def wildcardMatches_def endsWithStar_def startsWith_def supportsModel_def
        dispatch_samples)
  have d: "selectProvider pm_three ''llama'' = Some p_antigravity"
    unfolding r[OF ne(4)] selectProvider_rules_def rule_scan_def rule_fallback_def s
    by (simp add: rule_exact_def rule_wildcard_def firstUsableName_def
        usable_def wildcardMatches_def endsWithStar_def startsWith_def supportsModel_def
        dispatch_samples)
  from a b c d show ?thesis by simp
qed

section \<open>Credential stores\<close>

lemma map_nth_filter_upt:
  "map ((!) xs) (filter (\<lambda>i. P (xs ! i)) [0..<length xs]) = filter P xs"
proof (induction xs)
  case Nil
  then show ?case by simp
next
  case (Cons x xs)
  have "[0..<Suc (length xs)] = 0 # [Suc 0..<Suc (length xs)]"
    by (rule upt_conv_Cons) simp
  then have upt: "[0..<length (x # xs)] = 0 # map Suc [0..<length xs]"
    by (simp add: map_Suc_upt del: upt_Suc)
  have "map ((!) (x # xs)) (filter (\<lambda>i. P ((x # xs) ! i)) (map Suc [0..<length xs]))
      = map ((!) xs) (filter (\<lambda>i. P (xs ! i)) [0..<length xs])"
    by (simp add: filter_map comp_def)
  then show ?case
    unfolding upt using Cons by simp
qed

lemma enabledPositions_accounts:
  "map ((!) accs) (enabledPositions en accs) = enabledAccounts en accs"
  unfolding enabledPositions_def enabledAccounts_def by (rule map_nth_filter_upt)

lemma length_enabledPositions:
  "length (enabledPositions en accs) = length (enabledAccounts en accs)"
  using arg_cong[OF enabledPositions_accounts[of accs en], of length] by simp

lemma enabledPositions_nth:
  assumes "i < length (enabledPositions en accs)"
  shows "accs ! (enabledPositions en accs ! i) = enabledAccounts en accs ! i"
    and "enabledPositions en accs ! i < length accs"
    and "en (accs ! (enabledPositions en accs ! i)) \<noteq> Some False"
proof -
  show "accs ! (enabledPositions en accs ! i) = enabledAccounts en accs ! i"
    using assms nth_map[of i "enabledPositions en accs" "(!) accs"]
    by (simp add: enabledPositions_accounts)
  have "enabledPositions en accs ! i \<in> set (enabledPositions en accs)"
    using assms by simp
  then show "enabledPositions en accs ! i < length accs"
    and "en (accs ! (enabledPositions en accs ! i)) \<noteq> Some False"
    by (auto simp: enabledPositions_def)
qed

text \<open>Rotation.\<close>

lemma rotate_as_map:
  assumes "xs \<noteq> []"
  shows "map (\<lambda>j. xs ! ((c + j) mod length xs)) [0..<length xs] = rotate c xs"
proof (rule nth_equalityI)
  show "length (map (\<lambda>j. xs ! ((c + j) mod length xs)) [0..<length xs]) = length (rotate c xs)"
    by simp
next
  fix i assume "i < length (map (\<lambda>j. xs ! ((c + j) mod length xs)) [0..<length xs])"
  then have i: "i < length xs" by simp
  then show "map (\<lambda>j. xs ! ((c + j) mod length xs)) [0..<length xs] ! i = rotate c xs ! i"
    by (simp add: nth_rotate)
qed

lemma concat_replicate_Suc: "concat (replicate (Suc q) ys) = concat (replicate q ys) @ ys"
  by (induction q) simp_all

lemma rounds_as_map:
  assumes "xs \<noteq> []"
  shows "map (\<lambda>j. xs ! ((c + j) mod length xs)) [0..<q * length xs]
         = concat (replicate q (rotate c xs))"
proof (induction q)
  case 0
  then show ?case by simp
next
  case (Suc q)
  let ?n = "length xs"
  have s1: "[0..<q * ?n + ?n] = [0..<q * ?n] @ [q * ?n..<q * ?n + ?n]"
    by (rule upt_add_eq_append) simp
  have s2: "[q * ?n..<?n + q * ?n] = map (\<lambda>k. k + q * ?n) [0..<?n]"
    by (rule map_add_upt[symmetric])
  have s3: "Suc q * ?n = q * ?n + ?n" and s4: "?n + q * ?n = q * ?n + ?n" by simp_all
  have split: "[0..<Suc q * ?n] = [0..<q * ?n] @ map (\<lambda>k. k + q * ?n) [0..<?n]"
    unfolding s3 s1 s2[unfolded s4] ..
  have blk: "map (\<lambda>j. xs ! ((c + j) mod ?n)) (map (\<lambda>k. k + q * ?n) [0..<?n]) = rotate c xs"
  proof -
    have "\<And>k. (c + (k + q * ?n)) mod ?n = (c + k) mod ?n"
    proof -
      fix k
      have "c + (k + q * ?n) = (c + k) + q * ?n" by simp
      then show "(c + (k + q * ?n)) mod ?n = (c + k) mod ?n"
        by (simp only: mod_mult_self1)
    qed
    then have "map (\<lambda>j. xs ! ((c + j) mod ?n)) (map (\<lambda>k. k + q * ?n) [0..<?n])
             = map (\<lambda>j. xs ! ((c + j) mod ?n)) [0..<?n]"
      by (simp only: map_map comp_def)
    then show ?thesis using rotate_as_map[OF assms, of c] by simp
  qed
  have rep: "concat (replicate (Suc q) (rotate c xs)) = concat (replicate q (rotate c xs)) @ rotate c xs"
    by (rule concat_replicate_Suc)
  show ?case unfolding split map_append Suc blk rep ..
qed

lemma count_list_concat_replicate:
  "count_list (concat (replicate q ys)) x = q * count_list ys x"
  by (induction q) simp_all

lemma count_list_rotate: "count_list (rotate c xs) x = count_list xs x"
proof -
  have "count_list (drop (c mod length xs) xs @ take (c mod length xs) xs) x
      = count_list (take (c mod length xs) xs @ drop (c mod length xs) xs) x"
    by (simp only: count_list_append add.commute)
  then show ?thesis by (simp add: rotate_drop_take)
qed

lemma count_list_map_inj:
  "inj f \<Longrightarrow> count_list (map f xs) (f x) = count_list xs x"
  by (induction xs) (auto dest: injD)


subsection \<open>Codex\<close>

lemma codex_getToken_fresh:
  assumes ne: "enabledAccounts cx_enable (cx_accounts st) \<noteq> []"
    and fresh: "\<forall>a \<in> set (enabledAccounts cx_enable (cx_accounts st)).
                  \<not> codex_needsRefresh (cw_now w (cx_currentIndex st)) a"
  shows "codex_getToken (Suc fuel) w st =
           Some (Token (enabledAccounts cx_enable (cx_accounts st) !
                          (cx_currentIndex st mod length (enabledAccounts cx_enable (cx_accounts st)))),
                 st\<lparr>cx_currentIndex := Suc (cx_currentIndex st)\<rparr>)"
proof -
  let ?E = "enabledPositions cx_enable (cx_accounts st)"
  let ?A = "enabledAccounts cx_enable (cx_accounts st)"
  let ?i = "cx_currentIndex st mod length ?E"
  have len: "length ?E = length ?A" by (rule length_enabledPositions)
  then have pos: "length ?E \<noteq> 0" using ne by simp
  then have i: "?i < length ?E" by simp
  have acc: "cx_accounts st ! (?E ! ?i) = ?A ! ?i" using i by (rule enabledPositions_nth(1))
  have "?A ! ?i \<in> set ?A" using i len by simp
  then have "\<not> codex_needsRefresh (cw_now w (cx_currentIndex st)) (?A ! ?i)"
    using fresh by blast
  then have nf: "(auth_type (cx_accounts st ! (?E ! ?i)) = AUTH_TYPE_OAUTH
                    \<and> codex_isExpired (cw_now w (cx_currentIndex st)) (cx_accounts st ! (?E ! ?i)))
                  = False"
    by (simp add: codex_needsRefresh_def acc)
  have "codex_getToken (Suc fuel) w st =
          Some (Token (cx_accounts st ! (?E ! ?i)), st\<lparr>cx_currentIndex := Suc (cx_currentIndex st)\<rparr>)"
    unfolding codex_getToken.simps Let_def using pos by (simp add: nf)
  then show ?thesis using acc len by simp
qed

lemma codex_getTokens_fresh:
  assumes "cx_accounts st = accs" "cx_currentIndex st = c"
    and "enabledAccounts cx_enable accs \<noteq> []"
    and "\<forall>k. \<forall>a \<in> set (enabledAccounts cx_enable accs). \<not> codex_needsRefresh (cw_now w k) a"
  shows "codex_getTokens (Suc fuel) w st M =
           Some (map (\<lambda>j. Token (enabledAccounts cx_enable accs !
                                   ((c + j) mod length (enabledAccounts cx_enable accs)))) [0..<M],
                 st\<lparr>cx_currentIndex := c + M\<rparr>)"
  using assms(1,2)
proof (induction M arbitrary: st c)
  case 0
  then show ?case by simp
next
  case (Suc M)
  let ?A = "enabledAccounts cx_enable accs"
  let ?st1 = "st\<lparr>cx_currentIndex := Suc c\<rparr>"
  have first: "codex_getToken (Suc fuel) w st = Some (Token (?A ! (c mod length ?A)), ?st1)"
    using codex_getToken_fresh[of st w fuel] assms(3,4) Suc.prems by simp
  have rest: "codex_getTokens (Suc fuel) w ?st1 M =
           Some (map (\<lambda>j. Token (?A ! ((Suc c + j) mod length ?A))) [0..<M],
                 ?st1\<lparr>cx_currentIndex := Suc c + M\<rparr>)"
    using Suc.IH[of ?st1 "Suc c"] Suc.prems by simp
  have m: "map (\<lambda>j. Token (?A ! ((c + j) mod length ?A))) [0..<Suc M]
         = Token (?A ! (c mod length ?A)) # map (\<lambda>j. Token (?A ! ((Suc c + j) mod length ?A))) [0..<M]"
    unfolding map_upt_Suc by simp
  show ?case
    by (simp add: first rest m del: upt_Suc codex_getToken.simps)
qed

lemma inj_Token: "inj Token"
  by (simp add: inj_def)

lemma codex_round_robin:
  assumes "ea = enabledAccounts cx_enable (cx_accounts st)" "ea \<noteq> []"
    and "\<forall>k. \<forall>a \<in> set ea. \<not> codex_needsRefresh (cw_now w k) a"
    and "0 < fuel"
  shows "codex_getTokens fuel w st M =
           Some (map (\<lambda>j. Token (ea ! ((cx_currentIndex st + j) mod length ea))) [0..<M],
                 st\<lparr>cx_currentIndex := cx_currentIndex st + M\<rparr>)"
    and "length ea dvd M \<Longrightarrow>
           map (\<lambda>j. Token (ea ! ((cx_currentIndex st + j) mod length ea))) [0..<M]
             = map Token (concat (replicate (M div length ea) (rotate (cx_currentIndex st) ea)))"
    and "length ea dvd M \<Longrightarrow>
           count_list (map (\<lambda>j. Token (ea ! ((cx_currentIndex st + j) mod length ea))) [0..<M]) (Token a)
             = (M div length ea) * count_list ea a"
    and "set ea = {a \<in> set (cx_accounts st). cx_enable a \<noteq> Some False}"
proof -
  obtain f where f: "fuel = Suc f" using assms(4) by (cases fuel) auto
  show "codex_getTokens fuel w st M =
           Some (map (\<lambda>j. Token (ea ! ((cx_currentIndex st + j) mod length ea))) [0..<M],
                 st\<lparr>cx_currentIndex := cx_currentIndex st + M\<rparr>)"
    unfolding f using codex_getTokens_fresh[OF refl refl, of st w f M] assms(1-3) by simp
  show r: "map (\<lambda>j. Token (ea ! ((cx_currentIndex st + j) mod length ea))) [0..<M]
             = map Token (concat (replicate (M div length ea) (rotate (cx_currentIndex st) ea)))"
    if d: "length ea dvd M"
  proof -
    have M: "M = (M div length ea) * length ea" using d by simp
    have "map (\<lambda>j. ea ! ((cx_currentIndex st + j) mod length ea)) [0..<(M div length ea) * length ea]
          = concat (replicate (M div length ea) (rotate (cx_currentIndex st) ea))"
      using assms(2) by (rule rounds_as_map)
    then have "map Token (map (\<lambda>j. ea ! ((cx_currentIndex st + j) mod length ea)) [0..<M])
          = map Token (concat (replicate (M div length ea) (rotate (cx_currentIndex st) ea)))"
      using M by simp
    then show ?thesis by (simp add: comp_def)
  qed
  show "count_list (map (\<lambda>j. Token (ea ! ((cx_currentIndex st + j) mod length ea))) [0..<M]) (Token a)
             = (M div length ea) * count_list ea a"
    if d: "length ea dvd M"
    unfolding r[OF d]
    by (simp add: count_list_map_inj[OF inj_Token] count_list_concat_replicate count_list_rotate)
  show "set ea = {a \<in> set (cx_accounts st). cx_enable a \<noteq> Some False}"
    unfolding assms(1) enabledAccounts_def by auto
qed


lemma codex_getToken_Suc:
  "codex_getToken (Suc fuel) w st =
     (if enabledPositions cx_enable (cx_accounts st) = [] then Some (NoToken, st)
      else if codex_needsRefresh (cw_now w (cx_currentIndex st))
                (cx_accounts st ! (enabledPositions cx_enable (cx_accounts st) !
                   (cx_currentIndex st mod length (enabledPositions cx_enable (cx_accounts st)))))
      then (case codex_refreshToken w (cx_currentIndex st)
                   (st\<lparr>cx_currentIndex := Suc (cx_currentIndex st)\<rparr>)
                   (enabledPositions cx_enable (cx_accounts st) !
                      (cx_currentIndex st mod length (enabledPositions cx_enable (cx_accounts st)))) of
              (Inr refreshed, st2) \<Rightarrow> Some (Token refreshed, st2)
            | (Inl err, st2) \<Rightarrow>
                if 1 < length (enabledPositions cx_enable (cx_accounts st))
                then codex_getToken fuel w st2 else Some (Failed err, st2))
      else Some (Token (cx_accounts st ! (enabledPositions cx_enable (cx_accounts st) !
                   (cx_currentIndex st mod length (enabledPositions cx_enable (cx_accounts st))))),
                 st\<lparr>cx_currentIndex := Suc (cx_currentIndex st)\<rparr>))"
  by (simp add: Let_def codex_needsRefresh_def)

lemma codex_refresh_posted_mono:
  "\<exists>ys. cx_posted (snd (codex_refreshToken w k st pos)) = cx_posted st @ ys"
  by (simp add: codex_refreshToken_def Let_def split: option.splits)

lemma codex_refresh_posted:
  assumes "auth_type (cx_accounts st ! pos) = AUTH_TYPE_OAUTH"
    and "refresh_token (cx_accounts st ! pos) \<noteq> []"
  shows "cx_posted (snd (codex_refreshToken w k st pos))
           = cx_posted st @ [refresh_token (cx_accounts st ! pos)]"
  using assms
  by (simp add: codex_refreshToken_def Let_def AUTH_TYPE_OAUTH_def AUTH_TYPE_API_KEY_def
      split: option.splits)

lemma codex_getToken_posted:
  "codex_getToken fuel w st = Some (r, st') \<Longrightarrow> \<exists>ys. cx_posted st' = cx_posted st @ ys"
proof (induction fuel arbitrary: st)
  case 0
  then show ?case by simp
next
  case (Suc fuel)
  let ?E = "enabledPositions cx_enable (cx_accounts st)"
  let ?k = "cx_currentIndex st"
  let ?st1 = "st\<lparr>cx_currentIndex := Suc ?k\<rparr>"
  let ?pos = "?E ! (?k mod length ?E)"
  note got = Suc.prems[unfolded codex_getToken_Suc]
  show ?case
  proof (cases "?E = []")
    case True
    with got show ?thesis by simp
  next
    case False
    note ne = False
    show ?thesis
    proof (cases "codex_needsRefresh (cw_now w ?k) (cx_accounts st ! ?pos)")
      case False
      with got ne show ?thesis by auto
    next
      case True
      obtain res st2 where rf: "codex_refreshToken w ?k ?st1 ?pos = (res, st2)"
        by (cases "codex_refreshToken w ?k ?st1 ?pos")
      obtain ys where ys: "cx_posted st2 = cx_posted st @ ys"
        using codex_refresh_posted_mono[of w ?k ?st1 ?pos] rf by auto
      show ?thesis
      proof (cases res)
        case (Inr refreshed)
        with got ne True rf ys show ?thesis by auto
      next
        case (Inl err)
        show ?thesis
        proof (cases "length ?E > 1")
          case True
          with got ne \<open>codex_needsRefresh (cw_now w ?k) (cx_accounts st ! ?pos)\<close> rf Inl
          have "codex_getToken fuel w st2 = Some (r, st')" by simp
          from Suc.IH[OF this] ys show ?thesis by auto
        next
          case False
          with got ne \<open>codex_needsRefresh (cw_now w ?k) (cx_accounts st ! ?pos)\<close> rf Inl ys
          show ?thesis by auto
        qed
      qed
    qed
  qed
qed

text \<open>
  The staleness tests. An instant that is a whole number of milliseconds of absolute
  value up to \<open>2^52\<close> (every date is) is stale at \<open>now\<close> when it is at or before
  \<open>now\<close> plus ten minutes.
\<close>

lemma stale_whole_instant:
  assumes "\<bar>x\<bar> \<le> 2 ^ 52"
  shows "js_ge (Finite y) (js_sub (Finite (of_int x)) (Finite (10 * 60 * 1000)))
           \<longleftrightarrow> of_int x \<le> y + 10 * 60 * 1000"
proof -
  have "\<bar>x - 600000\<bar> \<le> 2 ^ 53" using assms by simp
  from roundDouble_int_exact[OF this]
  have "roundDouble (of_int x - 600000) = Finite (of_int x - 600000)" by simp
  then have "js_sub (Finite (of_int x)) (Finite (10 * 60 * 1000)) = Finite (of_int x - 600000)"
    by (simp add: js_sub_def)
  then show ?thesis by (simp add: algebra_simps)
qed

lemma codex_needsRefresh_iff:
  "codex_needsRefresh now a \<longleftrightarrow>
     auth_type a = AUTH_TYPE_OAUTH \<and>
     (\<exists>ea. expires_at a = Some ea \<and> ea \<noteq> Finite 0 \<and>
           js_ge now (js_sub ea (Finite (10 * 60 * 1000))))"
proof (cases "expires_at a")
  case None
  then show ?thesis by (simp add: codex_needsRefresh_def codex_isExpired_def)
next
  case (Some ea)
  then show ?thesis
    by (cases ea)
      (auto simp: codex_needsRefresh_def codex_isExpired_def AUTH_TYPE_OAUTH_def
        AUTH_TYPE_API_KEY_def TOKEN_REFRESH_BUFFER_def js_sub_def js_ge_def)
qed

text \<open>What \<open>refreshToken\<close> leaves when it returns, and when it throws.\<close>

lemma codex_refresh_Inr:
  assumes "auth_type (cx_accounts st ! pos) = AUTH_TYPE_OAUTH"
    and "codex_refreshToken w k st pos = (Inr r, st')"
  shows "codex_refreshedBy w k (cx_accounts st ! pos) r"
    and "cx_accounts st' = (cx_accounts st)[pos := r]"
    and "cx_file st' = cx_accounts st'"
    and "cx_posted st' = cx_posted st @ [refresh_token (cx_accounts st ! pos)]"
    and "cx_currentIndex st' = cx_currentIndex st"
  using assms
  by (auto simp: codex_refreshToken_def Let_def codex_refreshedBy_def AUTH_TYPE_OAUTH_def
      AUTH_TYPE_API_KEY_def split: option.splits if_splits)

lemma codex_refresh_Inl:
  assumes "codex_refreshToken w k st pos = (Inl err, st')"
  shows "cx_file st' = cx_file st" and "cx_currentIndex st' = cx_currentIndex st"
  using assms
  by (auto simp: codex_refreshToken_def Let_def split: option.splits if_splits)

lemma codex_refresh_completes:
  assumes "auth_type (cx_accounts st ! pos) = AUTH_TYPE_OAUTH"
    and "codex_refreshedBy w k (cx_accounts st ! pos) r0"
  shows "\<exists>r st'. codex_refreshToken w k st pos = (Inr r, st')"
  using assms
  by (auto simp: codex_refreshToken_def Let_def codex_refreshedBy_def AUTH_TYPE_OAUTH_def
      AUTH_TYPE_API_KEY_def split: option.splits)

text \<open>Codex: a call of \<open>getToken\<close> that selects a stale OAuth account.\<close>

lemma codex_stale:
  assumes E: "E = enabledPositions cx_enable (cx_accounts st)" and ne: "E \<noteq> []"
    and k: "k = cx_currentIndex st" and pos: "pos = E ! (k mod length E)"
    and a: "a = cx_accounts st ! pos"
    and stale: "codex_needsRefresh (cw_now w k) a"
  shows "codex_getToken (Suc fuel) w st =
           (case codex_refreshToken w k (st\<lparr>cx_currentIndex := k + 1\<rparr>) pos of
              (Inr refreshed, st2) \<Rightarrow> Some (Token refreshed, st2)
            | (Inl err, st2) \<Rightarrow>
                if 1 < length E then codex_getToken fuel w st2 else Some (Failed err, st2))"
    and "\<exists>r. codex_refreshedBy w k a r \<Longrightarrow>
           \<exists>r st'. codex_getToken (Suc fuel) w st = Some (Token r, st')
              \<and> codex_refreshedBy w k a r
              \<and> cx_accounts st' = (cx_accounts st)[pos := r]
              \<and> cx_file st' = cx_accounts st'
              \<and> cx_posted st' = cx_posted st @ [refresh_token a]
              \<and> cx_currentIndex st' = k + 1"
    and "\<not> (\<exists>r. codex_refreshedBy w k a r) \<Longrightarrow>
           \<exists>err st2. codex_refreshToken w k (st\<lparr>cx_currentIndex := k + 1\<rparr>) pos = (Inl err, st2)
              \<and> cx_file st2 = cx_file st
              \<and> cx_currentIndex st2 = k + 1
              \<and> codex_getToken (Suc fuel) w st =
                  (if 1 < length E then codex_getToken fuel w st2 else Some (Failed err, st2))"
    and "refresh_token a \<noteq> [] \<Longrightarrow> codex_getToken (Suc fuel) w st = Some (res, st') \<Longrightarrow>
           \<exists>ys. cx_posted st' = cx_posted st @ refresh_token a # ys"
proof -
  let ?st1 = "st\<lparr>cx_currentIndex := k + 1\<rparr>"
  have oauth: "auth_type a = AUTH_TYPE_OAUTH"
    using stale by (simp add: codex_needsRefresh_def)
  have oauth1: "auth_type (cx_accounts ?st1 ! pos) = AUTH_TYPE_OAUTH"
    using oauth a by simp
  have cond: "codex_needsRefresh (cw_now w k) (cx_accounts st ! pos)"
    using stale a by simp
  show eq: "codex_getToken (Suc fuel) w st =
           (case codex_refreshToken w k ?st1 pos of
              (Inr refreshed, st2) \<Rightarrow> Some (Token refreshed, st2)
            | (Inl err, st2) \<Rightarrow>
                if 1 < length E then codex_getToken fuel w st2 else Some (Failed err, st2))"
    unfolding codex_getToken_Suc E[symmetric] k[symmetric] pos[symmetric]
    using ne cond by simp
  obtain r0 st2 where rf: "codex_refreshToken w k ?st1 pos = (r0, st2)"
    by (cases "codex_refreshToken w k ?st1 pos")
  show "\<exists>r st'. codex_getToken (Suc fuel) w st = Some (Token r, st')
              \<and> codex_refreshedBy w k a r
              \<and> cx_accounts st' = (cx_accounts st)[pos := r]
              \<and> cx_file st' = cx_accounts st'
              \<and> cx_posted st' = cx_posted st @ [refresh_token a]
              \<and> cx_currentIndex st' = k + 1"
    if "\<exists>r. codex_refreshedBy w k a r"
  proof -
    from that obtain r1 where "codex_refreshedBy w k (cx_accounts ?st1 ! pos) r1"
      using a by auto
    from codex_refresh_completes[OF oauth1 this]
    obtain r st' where r: "codex_refreshToken w k ?st1 pos = (Inr r, st')" by blast
    note f = codex_refresh_Inr[OF oauth1 r]
    have "codex_getToken (Suc fuel) w st = Some (Token r, st')" unfolding eq r by simp
    moreover have "codex_refreshedBy w k a r" using f(1) a by simp
    moreover have "cx_accounts st' = (cx_accounts st)[pos := r]" using f(2) by simp
    moreover have "cx_posted st' = cx_posted st @ [refresh_token a]" using f(4) a by simp
    moreover have "cx_currentIndex st' = k + 1" using f(5) by simp
    ultimately show ?thesis using f(3) by blast
  qed
  show "\<exists>err st2. codex_refreshToken w k ?st1 pos = (Inl err, st2)
              \<and> cx_file st2 = cx_file st
              \<and> cx_currentIndex st2 = k + 1
              \<and> codex_getToken (Suc fuel) w st =
                  (if 1 < length E then codex_getToken fuel w st2 else Some (Failed err, st2))"
    if no: "\<not> (\<exists>r. codex_refreshedBy w k a r)"
  proof (cases r0)
    case (Inr r)
    from codex_refresh_Inr(1)[OF oauth1 rf[unfolded Inr]] a no show ?thesis by auto
  next
    case (Inl err)
    note f = codex_refresh_Inl[OF rf[unfolded Inl]]
    have "codex_getToken (Suc fuel) w st =
            (if 1 < length E then codex_getToken fuel w st2 else Some (Failed err, st2))"
      unfolding eq rf Inl by simp
    moreover have "cx_file st2 = cx_file st" using f(1) by simp
    moreover have "cx_currentIndex st2 = k + 1" using f(2) by simp
    ultimately show ?thesis using rf Inl by blast
  qed
  show "\<exists>ys. cx_posted st' = cx_posted st @ refresh_token a # ys"
    if rt: "refresh_token a \<noteq> []" and got: "codex_getToken (Suc fuel) w st = Some (res, st')"
  proof -
    have p2: "cx_posted st2 = cx_posted st @ [refresh_token a]"
      using codex_refresh_posted[of ?st1 pos w k] rf oauth rt a by simp
    show ?thesis
    proof (cases r0)
      case (Inr refreshed)
      with eq rf got p2 show ?thesis by auto
    next
      case (Inl err)
      show ?thesis
      proof (cases "1 < length E")
        case True
        with eq rf Inl got have "codex_getToken fuel w st2 = Some (res, st')" by simp
        from codex_getToken_posted[OF this] p2 show ?thesis by auto
      next
        case False
        with eq rf Inl got p2 show ?thesis by auto
      qed
    qed
  qed
qed

text \<open>
  Codex: whatever account a call yields was selected in one of its rounds and either
  needed no refresh in that round, or is what the completed refresh of a stale account
  left, stored and persisted.
\<close>

lemma codex_yield:
  "codex_getToken fuel w st = Some (Token r, st') \<Longrightarrow>
     \<exists>j. cx_currentIndex st \<le> j \<and> cx_currentIndex st' = Suc j \<and> r \<in> set (cx_accounts st') \<and>
       (\<not> codex_needsRefresh (cw_now w j) r \<or>
        (\<exists>a. codex_needsRefresh (cw_now w j) a \<and> codex_refreshedBy w j a r
              \<and> cx_file st' = cx_accounts st'))"
proof (induction fuel arbitrary: st)
  case 0
  then show ?case by simp
next
  case (Suc fuel)
  let ?E = "enabledPositions cx_enable (cx_accounts st)"
  let ?k = "cx_currentIndex st"
  let ?st1 = "st\<lparr>cx_currentIndex := Suc ?k\<rparr>"
  let ?pos = "?E ! (?k mod length ?E)"
  note got = Suc.prems[unfolded codex_getToken_Suc]
  show ?case
  proof (cases "?E = []")
    case True
    with got show ?thesis by simp
  next
    case False
    note ne = False
    then have "?k mod length ?E < length ?E" by simp
    from enabledPositions_nth(2)[OF this] have len: "?pos < length (cx_accounts st)" .
    show ?thesis
    proof (cases "codex_needsRefresh (cw_now w ?k) (cx_accounts st ! ?pos)")
      case False
      with got ne have r: "r = cx_accounts st ! ?pos" and s: "st' = ?st1" by auto
      have "r \<in> set (cx_accounts st')" using len r s by simp
      moreover have "\<not> codex_needsRefresh (cw_now w ?k) r" using False r by simp
      moreover have "cx_currentIndex st' = Suc ?k" using s by simp
      ultimately show ?thesis by blast
    next
      case True
      note stale = True
      then have oauth1: "auth_type (cx_accounts ?st1 ! ?pos) = AUTH_TYPE_OAUTH"
        by (simp add: codex_needsRefresh_def)
      obtain res st2 where rf: "codex_refreshToken w ?k ?st1 ?pos = (res, st2)"
        by (cases "codex_refreshToken w ?k ?st1 ?pos")
      show ?thesis
      proof (cases res)
        case (Inr refreshed)
        with got ne stale rf have r: "r = refreshed" and s: "st' = st2" by auto
        note f = codex_refresh_Inr[OF oauth1 rf[unfolded Inr]]
        have "r \<in> set (cx_accounts st')"
          using f(2) len r s by (simp add: set_update_memI)
        moreover have "codex_refreshedBy w ?k (cx_accounts st ! ?pos) r" using f(1) r by simp
        moreover have "cx_file st' = cx_accounts st'" using f(3) s by simp
        moreover have "cx_currentIndex st' = Suc ?k" using f(5) s by simp
        ultimately show ?thesis using stale by blast
      next
        case (Inl err)
        note f = codex_refresh_Inl[OF rf[unfolded Inl]]
        show ?thesis
        proof (cases "length ?E > 1")
          case True
          with got ne stale rf Inl
          have "codex_getToken fuel w st2 = Some (Token r, st')" by simp
          from Suc.IH[OF this] obtain j where j: "cx_currentIndex st2 \<le> j"
            and rest: "cx_currentIndex st' = Suc j \<and> r \<in> set (cx_accounts st') \<and>
               (\<not> codex_needsRefresh (cw_now w j) r \<or>
                (\<exists>a. codex_needsRefresh (cw_now w j) a \<and> codex_refreshedBy w j a r
                      \<and> cx_file st' = cx_accounts st'))"
            by blast
          have "?k \<le> j" using j f(2) by simp
          with rest show ?thesis by blast
        next
          case False
          with got ne stale rf Inl show ?thesis by auto
        qed
      qed
    qed
  qed
qed

subsection \<open>Kiro\<close>

lemma kiro_getToken_fresh:
  assumes ne: "enabledAccounts kr_enable (kr_accounts st) \<noteq> []"
    and fresh: "\<forall>a \<in> set (enabledAccounts kr_enable (kr_accounts st)).
                  \<not> kiro_isExpired (kw_now w (kr_currentIndex st)) a"
  shows "kiro_getToken (Suc fuel) w st =
           Some (Token (enabledAccounts kr_enable (kr_accounts st) !
                          (kr_currentIndex st mod length (enabledAccounts kr_enable (kr_accounts st)))),
                 st\<lparr>kr_currentIndex := Suc (kr_currentIndex st)\<rparr>)"
proof -
  let ?E = "enabledPositions kr_enable (kr_accounts st)"
  let ?A = "enabledAccounts kr_enable (kr_accounts st)"
  let ?i = "kr_currentIndex st mod length ?E"
  have len: "length ?E = length ?A" by (rule length_enabledPositions)
  then have pos: "length ?E \<noteq> 0" using ne by simp
  then have i: "?i < length ?E" by simp
  have acc: "kr_accounts st ! (?E ! ?i) = ?A ! ?i" using i by (rule enabledPositions_nth(1))
  have "?A ! ?i \<in> set ?A" using i len by simp
  then have "\<not> kiro_isExpired (kw_now w (kr_currentIndex st)) (?A ! ?i)"
    using fresh by blast
  then have nf: "kiro_isExpired (kw_now w (kr_currentIndex st)) (kr_accounts st ! (?E ! ?i)) = False"
    by (simp add: acc)
  have "kiro_getToken (Suc fuel) w st =
          Some (Token (kr_accounts st ! (?E ! ?i)), st\<lparr>kr_currentIndex := Suc (kr_currentIndex st)\<rparr>)"
    unfolding kiro_getToken.simps Let_def using pos by (simp add: nf)
  then show ?thesis using acc len by simp
qed

lemma kiro_getTokens_fresh:
  assumes "kr_accounts st = accs" "kr_currentIndex st = c"
    and "enabledAccounts kr_enable accs \<noteq> []"
    and "\<forall>k. \<forall>a \<in> set (enabledAccounts kr_enable accs). \<not> kiro_isExpired (kw_now w k) a"
  shows "kiro_getTokens (Suc fuel) w st M =
           Some (map (\<lambda>j. Token (enabledAccounts kr_enable accs !
                                   ((c + j) mod length (enabledAccounts kr_enable accs)))) [0..<M],
                 st\<lparr>kr_currentIndex := c + M\<rparr>)"
  using assms(1,2)
proof (induction M arbitrary: st c)
  case 0
  then show ?case by simp
next
  case (Suc M)
  let ?A = "enabledAccounts kr_enable accs"
  let ?st1 = "st\<lparr>kr_currentIndex := Suc c\<rparr>"
  have first: "kiro_getToken (Suc fuel) w st = Some (Token (?A ! (c mod length ?A)), ?st1)"
    using kiro_getToken_fresh[of st w fuel] assms(3,4) Suc.prems by simp
  have rest: "kiro_getTokens (Suc fuel) w ?st1 M =
           Some (map (\<lambda>j. Token (?A ! ((Suc c + j) mod length ?A))) [0..<M],
                 ?st1\<lparr>kr_currentIndex := Suc c + M\<rparr>)"
    using Suc.IH[of ?st1 "Suc c"] Suc.prems by simp
  have m: "map (\<lambda>j. Token (?A ! ((c + j) mod length ?A))) [0..<Suc M]
         = Token (?A ! (c mod length ?A)) # map (\<lambda>j. Token (?A ! ((Suc c + j) mod length ?A))) [0..<M]"
    unfolding map_upt_Suc by simp
  show ?case
    by (simp add: first rest m del: upt_Suc kiro_getToken.simps)
qed

lemma kiro_round_robin:
  assumes "ea = enabledAccounts kr_enable (kr_accounts st)" "ea \<noteq> []"
    and "\<forall>k. \<forall>a \<in> set ea. \<not> kiro_isExpired (kw_now w k) a"
    and "0 < fuel"
  shows "kiro_getTokens fuel w st M =
           Some (map (\<lambda>j. Token (ea ! ((kr_currentIndex st + j) mod length ea))) [0..<M],
                 st\<lparr>kr_currentIndex := kr_currentIndex st + M\<rparr>)"
    and "length ea dvd M \<Longrightarrow>
           map (\<lambda>j. Token (ea ! ((kr_currentIndex st + j) mod length ea))) [0..<M]
             = map Token (concat (replicate (M div length ea) (rotate (kr_currentIndex st) ea)))"
    and "length ea dvd M \<Longrightarrow>
           count_list (map (\<lambda>j. Token (ea ! ((kr_currentIndex st + j) mod length ea))) [0..<M]) (Token a)
             = (M div length ea) * count_list ea a"
    and "set ea = {a \<in> set (kr_accounts st). kr_enable a \<noteq> Some False}"
proof -
  obtain f where f: "fuel = Suc f" using assms(4) by (cases fuel) auto
  show "kiro_getTokens fuel w st M =
           Some (map (\<lambda>j. Token (ea ! ((kr_currentIndex st + j) mod length ea))) [0..<M],
                 st\<lparr>kr_currentIndex := kr_currentIndex st + M\<rparr>)"
    unfolding f using kiro_getTokens_fresh[OF refl refl, of st w f M] assms(1-3) by simp
  show r: "map (\<lambda>j. Token (ea ! ((kr_currentIndex st + j) mod length ea))) [0..<M]
             = map Token (concat (replicate (M div length ea) (rotate (kr_currentIndex st) ea)))"
    if d: "length ea dvd M"
  proof -
    have M: "M = (M div length ea) * length ea" using d by simp
    have "map (\<lambda>j. ea ! ((kr_currentIndex st + j) mod length ea)) [0..<(M div length ea) * length ea]
          = concat (replicate (M div length ea) (rotate (kr_currentIndex st) ea))"
      using assms(2) by (rule rounds_as_map)
    then have "map Token (map (\<lambda>j. ea ! ((kr_currentIndex st + j) mod length ea)) [0..<M])
          = map Token (concat (replicate (M div length ea) (rotate (kr_currentIndex st) ea)))"
      using M by simp
    then show ?thesis by (simp add: comp_def)
  qed
  show "count_list (map (\<lambda>j. Token (ea ! ((kr_currentIndex st + j) mod length ea))) [0..<M]) (Token a)
             = (M div length ea) * count_list ea a"
    if d: "length ea dvd M"
    unfolding r[OF d]
    by (simp add: count_list_map_inj[OF inj_Token] count_list_concat_replicate count_list_rotate)
  show "set ea = {a \<in> set (kr_accounts st). kr_enable a \<noteq> Some False}"
    unfolding assms(1) enabledAccounts_def by auto
qed


lemma kiro_getToken_Suc:
  "kiro_getToken (Suc fuel) w st =
     (if enabledPositions kr_enable (kr_accounts st) = [] then Some (NoToken, st)
      else if kiro_isExpired (kw_now w (kr_currentIndex st))
                (kr_accounts st ! (enabledPositions kr_enable (kr_accounts st) !
                   (kr_currentIndex st mod length (enabledPositions kr_enable (kr_accounts st)))))
      then (case kiro_refreshToken w (kr_currentIndex st)
                   (st\<lparr>kr_currentIndex := Suc (kr_currentIndex st)\<rparr>)
                   (enabledPositions kr_enable (kr_accounts st) !
                      (kr_currentIndex st mod length (enabledPositions kr_enable (kr_accounts st)))) of
              (Inr refreshed, st2) \<Rightarrow>
                Some (Token (kr_accounts st2 ! (enabledPositions kr_enable (kr_accounts st) !
                   (kr_currentIndex st mod length (enabledPositions kr_enable (kr_accounts st))))), st2)
            | (Inl err, st2) \<Rightarrow>
                if 1 < length (enabledPositions kr_enable (kr_accounts st))
                then kiro_getToken fuel w st2 else Some (Failed err, st2))
      else Some (Token (kr_accounts st ! (enabledPositions kr_enable (kr_accounts st) !
                   (kr_currentIndex st mod length (enabledPositions kr_enable (kr_accounts st))))),
                 st\<lparr>kr_currentIndex := Suc (kr_currentIndex st)\<rparr>))"
  by (simp add: Let_def)

lemma kiro_refresh_posted_mono:
  "\<exists>ys. kr_posted (snd (kiro_refreshToken w k st pos)) = kr_posted st @ ys"
  by (simp add: kiro_refreshToken_def Let_def split: option.splits)

lemma kiro_refresh_posted:
  assumes "refreshToken (kr_accounts st ! pos) \<noteq> []"
  shows "kr_posted (snd (kiro_refreshToken w k st pos))
           = kr_posted st @ [kiro_refreshRequest (kr_accounts st ! pos)]"
  using assms
  by (simp add: kiro_refreshToken_def Let_def split: option.splits)

lemma kiro_getToken_posted:
  "kiro_getToken fuel w st = Some (r, st') \<Longrightarrow> \<exists>ys. kr_posted st' = kr_posted st @ ys"
proof (induction fuel arbitrary: st)
  case 0
  then show ?case by simp
next
  case (Suc fuel)
  let ?E = "enabledPositions kr_enable (kr_accounts st)"
  let ?k = "kr_currentIndex st"
  let ?st1 = "st\<lparr>kr_currentIndex := Suc ?k\<rparr>"
  let ?pos = "?E ! (?k mod length ?E)"
  note got = Suc.prems[unfolded kiro_getToken_Suc]
  show ?case
  proof (cases "?E = []")
    case True
    with got show ?thesis by simp
  next
    case False
    note ne = False
    show ?thesis
    proof (cases "kiro_isExpired (kw_now w ?k) (kr_accounts st ! ?pos)")
      case False
      with got ne show ?thesis by auto
    next
      case True
      obtain res st2 where rf: "kiro_refreshToken w ?k ?st1 ?pos = (res, st2)"
        by (cases "kiro_refreshToken w ?k ?st1 ?pos")
      obtain ys where ys: "kr_posted st2 = kr_posted st @ ys"
        using kiro_refresh_posted_mono[of w ?k ?st1 ?pos] rf by auto
      show ?thesis
      proof (cases res)
        case (Inr refreshed)
        with got ne True rf ys show ?thesis by auto
      next
        case (Inl err)
        show ?thesis
        proof (cases "length ?E > 1")
          case True
          with got ne \<open>kiro_isExpired (kw_now w ?k) (kr_accounts st ! ?pos)\<close> rf Inl
          have "kiro_getToken fuel w st2 = Some (r, st')" by simp
          from Suc.IH[OF this] ys show ?thesis by auto
        next
          case False
          with got ne \<open>kiro_isExpired (kw_now w ?k) (kr_accounts st ! ?pos)\<close> rf Inl ys
          show ?thesis by auto
        qed
      qed
    qed
  qed
qed



lemma kiro_isExpired_iff:
  "kiro_isExpired now a \<longleftrightarrow>
     (\<exists>ea. expiresAt a = Instant ea \<and> js_ge now (js_sub ea (Finite (10 * 60 * 1000))))"
  by (cases "expiresAt a") (simp_all add: kiro_isExpired_def)

lemma kiro_refresh_Inr:
  assumes "pos < length (kr_accounts st)"
    and "kiro_refreshToken w k st pos = (Inr r, st')"
  shows "kiro_refreshedBy w k (kr_accounts st ! pos) r"
    and "kr_accounts st' = (kr_accounts st)[pos := r]"
    and "kr_accounts st' ! pos = r"
    and "kr_file st' = kr_accounts st'"
    and "kr_posted st' = kr_posted st @ [kiro_refreshRequest (kr_accounts st ! pos)]"
    and "kr_currentIndex st' = kr_currentIndex st"
  using assms
  by (auto simp: kiro_refreshToken_def Let_def kiro_refreshedBy_def
      split: option.splits if_splits)

lemma kiro_refresh_Inl:
  assumes "kiro_refreshToken w k st pos = (Inl err, st')"
  shows "kr_file st' = kr_file st" and "kr_currentIndex st' = kr_currentIndex st"
  using assms
  by (auto simp: kiro_refreshToken_def Let_def split: option.splits if_splits)

lemma kiro_refresh_completes:
  assumes "kiro_refreshedBy w k (kr_accounts st ! pos) r0"
  shows "\<exists>r st'. kiro_refreshToken w k st pos = (Inr r, st')"
  using assms
  by (auto simp: kiro_refreshToken_def Let_def kiro_refreshedBy_def split: option.splits)

text \<open>Kiro: a call of \<open>getToken\<close> that selects a stale account.\<close>

lemma kiro_stale:
  assumes E: "E = enabledPositions kr_enable (kr_accounts st)" and ne: "E \<noteq> []"
    and k: "k = kr_currentIndex st" and pos: "pos = E ! (k mod length E)"
    and a: "a = kr_accounts st ! pos"
    and stale: "kiro_isExpired (kw_now w k) a"
  shows "kiro_getToken (Suc fuel) w st =
           (case kiro_refreshToken w k (st\<lparr>kr_currentIndex := k + 1\<rparr>) pos of
              (Inr refreshed, st2) \<Rightarrow> Some (Token (kr_accounts st2 ! pos), st2)
            | (Inl err, st2) \<Rightarrow>
                if 1 < length E then kiro_getToken fuel w st2 else Some (Failed err, st2))"
    and "\<exists>r. kiro_refreshedBy w k a r \<Longrightarrow>
           \<exists>r st'. kiro_getToken (Suc fuel) w st = Some (Token r, st')
              \<and> kiro_refreshedBy w k a r
              \<and> kr_accounts st' = (kr_accounts st)[pos := r]
              \<and> kr_file st' = kr_accounts st'
              \<and> kr_posted st' = kr_posted st @ [kiro_refreshRequest a]
              \<and> kr_currentIndex st' = k + 1"
    and "\<not> (\<exists>r. kiro_refreshedBy w k a r) \<Longrightarrow>
           \<exists>err st2. kiro_refreshToken w k (st\<lparr>kr_currentIndex := k + 1\<rparr>) pos = (Inl err, st2)
              \<and> kr_file st2 = kr_file st
              \<and> kr_currentIndex st2 = k + 1
              \<and> kiro_getToken (Suc fuel) w st =
                  (if 1 < length E then kiro_getToken fuel w st2 else Some (Failed err, st2))"
    and "refreshToken a \<noteq> [] \<Longrightarrow> kiro_getToken (Suc fuel) w st = Some (res, st') \<Longrightarrow>
           \<exists>ys. kr_posted st' = kr_posted st @ kiro_refreshRequest a # ys"
proof -
  let ?st1 = "st\<lparr>kr_currentIndex := k + 1\<rparr>"
  have "k mod length E < length E" using ne by simp
  from enabledPositions_nth(2)[OF this[unfolded E]]
  have len: "pos < length (kr_accounts ?st1)" unfolding pos E by simp
  have cond: "kiro_isExpired (kw_now w k) (kr_accounts st ! pos)"
    using stale a by simp
  show eq: "kiro_getToken (Suc fuel) w st =
           (case kiro_refreshToken w k ?st1 pos of
              (Inr refreshed, st2) \<Rightarrow> Some (Token (kr_accounts st2 ! pos), st2)
            | (Inl err, st2) \<Rightarrow>
                if 1 < length E then kiro_getToken fuel w st2 else Some (Failed err, st2))"
    unfolding kiro_getToken_Suc E[symmetric] k[symmetric] pos[symmetric]
    using ne cond by simp
  obtain r0 st2 where rf: "kiro_refreshToken w k ?st1 pos = (r0, st2)"
    by (cases "kiro_refreshToken w k ?st1 pos")
  show "\<exists>r st'. kiro_getToken (Suc fuel) w st = Some (Token r, st')
              \<and> kiro_refreshedBy w k a r
              \<and> kr_accounts st' = (kr_accounts st)[pos := r]
              \<and> kr_file st' = kr_accounts st'
              \<and> kr_posted st' = kr_posted st @ [kiro_refreshRequest a]
              \<and> kr_currentIndex st' = k + 1"
    if "\<exists>r. kiro_refreshedBy w k a r"
  proof -
    from that obtain r1 where "kiro_refreshedBy w k (kr_accounts ?st1 ! pos) r1"
      using a by auto
    from kiro_refresh_completes[OF this]
    obtain r st' where r: "kiro_refreshToken w k ?st1 pos = (Inr r, st')" by blast
    note f = kiro_refresh_Inr[OF len r]
    have "kiro_getToken (Suc fuel) w st = Some (Token r, st')" unfolding eq r using f(3) by simp
    moreover have "kiro_refreshedBy w k a r" using f(1) a by simp
    moreover have "kr_accounts st' = (kr_accounts st)[pos := r]" using f(2) by simp
    moreover have "kr_posted st' = kr_posted st @ [kiro_refreshRequest a]" using f(5) a by simp
    moreover have "kr_currentIndex st' = k + 1" using f(6) by simp
    ultimately show ?thesis using f(4) by blast
  qed
  show "\<exists>err st2. kiro_refreshToken w k ?st1 pos = (Inl err, st2)
              \<and> kr_file st2 = kr_file st
              \<and> kr_currentIndex st2 = k + 1
              \<and> kiro_getToken (Suc fuel) w st =
                  (if 1 < length E then kiro_getToken fuel w st2 else Some (Failed err, st2))"
    if no: "\<not> (\<exists>r. kiro_refreshedBy w k a r)"
  proof (cases r0)
    case (Inr r)
    from kiro_refresh_Inr(1)[OF len rf[unfolded Inr]] a no show ?thesis by auto
  next
    case (Inl err)
    note f = kiro_refresh_Inl[OF rf[unfolded Inl]]
    have "kiro_getToken (Suc fuel) w st =
            (if 1 < length E then kiro_getToken fuel w st2 else Some (Failed err, st2))"
      unfolding eq rf Inl by simp
    moreover have "kr_file st2 = kr_file st" using f(1) by simp
    moreover have "kr_currentIndex st2 = k + 1" using f(2) by simp
    ultimately show ?thesis using rf Inl by blast
  qed
  show "\<exists>ys. kr_posted st' = kr_posted st @ kiro_refreshRequest a # ys"
    if rt: "refreshToken a \<noteq> []" and got: "kiro_getToken (Suc fuel) w st = Some (res, st')"
  proof -
    have p2: "kr_posted st2 = kr_posted st @ [kiro_refreshRequest a]"
      using kiro_refresh_posted[of ?st1 pos w k] rf rt a by simp
    show ?thesis
    proof (cases r0)
      case (Inr refreshed)
      with eq rf got p2 show ?thesis by auto
    next
      case (Inl err)
      show ?thesis
      proof (cases "1 < length E")
        case True
        with eq rf Inl got have "kiro_getToken fuel w st2 = Some (res, st')" by simp
        from kiro_getToken_posted[OF this] p2 show ?thesis by auto
      next
        case False
        with eq rf Inl got p2 show ?thesis by auto
      qed
    qed
  qed
qed

lemma kiro_yield:
  "kiro_getToken fuel w st = Some (Token r, st') \<Longrightarrow>
     \<exists>j. kr_currentIndex st \<le> j \<and> kr_currentIndex st' = Suc j \<and> r \<in> set (kr_accounts st') \<and>
       (\<not> kiro_isExpired (kw_now w j) r \<or>
        (\<exists>a. kiro_isExpired (kw_now w j) a \<and> kiro_refreshedBy w j a r
              \<and> kr_file st' = kr_accounts st'))"
proof (induction fuel arbitrary: st)
  case 0
  then show ?case by simp
next
  case (Suc fuel)
  let ?E = "enabledPositions kr_enable (kr_accounts st)"
  let ?k = "kr_currentIndex st"
  let ?st1 = "st\<lparr>kr_currentIndex := Suc ?k\<rparr>"
  let ?pos = "?E ! (?k mod length ?E)"
  note got = Suc.prems[unfolded kiro_getToken_Suc]
  show ?case
  proof (cases "?E = []")
    case True
    with got show ?thesis by simp
  next
    case False
    note ne = False
    then have "?k mod length ?E < length ?E" by simp
    from enabledPositions_nth(2)[OF this] have len: "?pos < length (kr_accounts st)" .
    then have len1: "?pos < length (kr_accounts ?st1)" by simp
    show ?thesis
    proof (cases "kiro_isExpired (kw_now w ?k) (kr_accounts st ! ?pos)")
      case False
      with got ne have r: "r = kr_accounts st ! ?pos" and s: "st' = ?st1" by auto
      have "r \<in> set (kr_accounts st')" using len r s by simp
      moreover have "\<not> kiro_isExpired (kw_now w ?k) r" using False r by simp
      moreover have "kr_currentIndex st' = Suc ?k" using s by simp
      ultimately show ?thesis by blast
    next
      case True
      note stale = True
      obtain res st2 where rf: "kiro_refreshToken w ?k ?st1 ?pos = (res, st2)"
        by (cases "kiro_refreshToken w ?k ?st1 ?pos")
      show ?thesis
      proof (cases res)
        case (Inr refreshed)
        with got ne stale rf have r: "r = kr_accounts st2 ! ?pos" and s: "st' = st2" by auto
        note f = kiro_refresh_Inr[OF len1 rf[unfolded Inr]]
        have rr: "r = refreshed" using r f(3) by simp
        have "r \<in> set (kr_accounts st')"
          using f(2) len rr s by (simp add: set_update_memI)
        moreover have "kiro_refreshedBy w ?k (kr_accounts st ! ?pos) r" using f(1) rr by simp
        moreover have "kr_file st' = kr_accounts st'" using f(4) s by simp
        moreover have "kr_currentIndex st' = Suc ?k" using f(6) s by simp
        ultimately show ?thesis using stale by blast
      next
        case (Inl err)
        note f = kiro_refresh_Inl[OF rf[unfolded Inl]]
        show ?thesis
        proof (cases "length ?E > 1")
          case True
          with got ne stale rf Inl
          have "kiro_getToken fuel w st2 = Some (Token r, st')" by simp
          from Suc.IH[OF this] obtain j where j: "kr_currentIndex st2 \<le> j"
            and rest: "kr_currentIndex st' = Suc j \<and> r \<in> set (kr_accounts st') \<and>
               (\<not> kiro_isExpired (kw_now w j) r \<or>
                (\<exists>a. kiro_isExpired (kw_now w j) a \<and> kiro_refreshedBy w j a r
                      \<and> kr_file st' = kr_accounts st'))"
            by blast
          have "?k \<le> j" using j f(2) by simp
          with rest show ?thesis by blast
        next
          case False
          with got ne stale rf Inl show ?thesis by auto
        qed
      qed
    qed
  qed
qed

subsection \<open>Antigravity\<close>

lemma spec_isExpired_iff:
  "spec_isExpired w now a \<longleftrightarrow>
     sa_refreshToken a \<noteq> [] \<and>
     (\<exists>ea. sa_expiresAt a = Some ea \<and> js_ge now (js_sub ea (sw_refreshBuffer w)))"
  by (cases "sa_expiresAt a") (simp_all add: spec_isExpired_def)

lemma spec_getToken_Suc:
  "spec_getToken (Suc fuel) w st =
     (if enabledPositions sa_enabled (sm_accounts st) = [] then Some (NoToken, st)
      else if spec_isExpired w (sw_now w (sm_currentIndex st))
                (sm_accounts st ! (enabledPositions sa_enabled (sm_accounts st) !
                   (sm_currentIndex st mod length (enabledPositions sa_enabled (sm_accounts st)))))
      then (case sw_refresh w (sm_currentIndex st)
                   (sm_accounts st ! (enabledPositions sa_enabled (sm_accounts st) !
                      (sm_currentIndex st mod length (enabledPositions sa_enabled (sm_accounts st))))) of
              Some refreshed \<Rightarrow>
                Some (Token refreshed,
                      st\<lparr>sm_currentIndex := Suc (sm_currentIndex st),
                         sm_accounts := (sm_accounts st)
                           [enabledPositions sa_enabled (sm_accounts st) !
                              (sm_currentIndex st mod length (enabledPositions sa_enabled (sm_accounts st)))
                            := refreshed],
                         sm_file := (sm_accounts st)
                           [enabledPositions sa_enabled (sm_accounts st) !
                              (sm_currentIndex st mod length (enabledPositions sa_enabled (sm_accounts st)))
                            := refreshed]\<rparr>)
            | None \<Rightarrow>
                if 1 < length (enabledPositions sa_enabled (sm_accounts st))
                then spec_getToken fuel w (st\<lparr>sm_currentIndex := Suc (sm_currentIndex st)\<rparr>)
                else Some (Failed RefreshRequestFailed,
                           st\<lparr>sm_currentIndex := Suc (sm_currentIndex st)\<rparr>))
      else Some (Token (sm_accounts st ! (enabledPositions sa_enabled (sm_accounts st) !
                   (sm_currentIndex st mod length (enabledPositions sa_enabled (sm_accounts st))))),
                 st\<lparr>sm_currentIndex := Suc (sm_currentIndex st)\<rparr>))"
  by (simp add: Let_def split: option.splits)

lemma spec_stale:
  assumes E: "E = enabledPositions sa_enabled (sm_accounts st)" and ne: "E \<noteq> []"
    and k: "k = sm_currentIndex st" and pos: "pos = E ! (k mod length E)"
    and a: "a = sm_accounts st ! pos"
    and stale: "spec_isExpired w (sw_now w k) a"
  shows "sw_refresh w k a = Some r \<Longrightarrow>
           spec_getToken (Suc fuel) w st =
             Some (Token r, st\<lparr>sm_currentIndex := k + 1,
                                sm_accounts := (sm_accounts st)[pos := r],
                                sm_file := (sm_accounts st)[pos := r]\<rparr>)"
    and "sw_refresh w k a = None \<Longrightarrow>
           spec_getToken (Suc fuel) w st =
             (if 1 < length E then spec_getToken fuel w (st\<lparr>sm_currentIndex := k + 1\<rparr>)
              else Some (Failed RefreshRequestFailed, st\<lparr>sm_currentIndex := k + 1\<rparr>))"
proof -
  have cond: "spec_isExpired w (sw_now w k) (sm_accounts st ! pos)"
    using stale a by simp
  show "spec_getToken (Suc fuel) w st =
             Some (Token r, st\<lparr>sm_currentIndex := k + 1,
                                sm_accounts := (sm_accounts st)[pos := r],
                                sm_file := (sm_accounts st)[pos := r]\<rparr>)"
    if "sw_refresh w k a = Some r"
    unfolding spec_getToken_Suc E[symmetric] k[symmetric] pos[symmetric]
    using ne cond that a by simp
  show "spec_getToken (Suc fuel) w st =
             (if 1 < length E then spec_getToken fuel w (st\<lparr>sm_currentIndex := k + 1\<rparr>)
              else Some (Failed RefreshRequestFailed, st\<lparr>sm_currentIndex := k + 1\<rparr>))"
    if "sw_refresh w k a = None"
    unfolding spec_getToken_Suc E[symmetric] k[symmetric] pos[symmetric]
    using ne cond that a by simp
qed

lemma spec_fresh:
  assumes E: "E = enabledPositions sa_enabled (sm_accounts st)" and ne: "E \<noteq> []"
    and k: "k = sm_currentIndex st" and pos: "pos = E ! (k mod length E)"
    and a: "a = sm_accounts st ! pos"
    and fresh: "\<not> spec_isExpired w (sw_now w k) a"
  shows "spec_getToken (Suc fuel) w st = Some (Token a, st\<lparr>sm_currentIndex := k + 1\<rparr>)"
proof -
  have cond: "\<not> spec_isExpired w (sw_now w k) (sm_accounts st ! pos)"
    using fresh a by simp
  show ?thesis
    unfolding spec_getToken_Suc E[symmetric] k[symmetric] pos[symmetric]
    using ne cond a by simp
qed

lemma spec_yield:
  "spec_getToken fuel w st = Some (Token r, st') \<Longrightarrow>
     \<exists>j. sm_currentIndex st \<le> j \<and> sm_currentIndex st' = Suc j \<and> r \<in> set (sm_accounts st') \<and>
       (\<not> spec_isExpired w (sw_now w j) r \<or>
        (\<exists>a. spec_isExpired w (sw_now w j) a \<and> sw_refresh w j a = Some r
              \<and> sm_file st' = sm_accounts st'))"
proof (induction fuel arbitrary: st)
  case 0
  then show ?case by simp
next
  case (Suc fuel)
  let ?E = "enabledPositions sa_enabled (sm_accounts st)"
  let ?k = "sm_currentIndex st"
  let ?st1 = "st\<lparr>sm_currentIndex := Suc ?k\<rparr>"
  let ?pos = "?E ! (?k mod length ?E)"
  note got = Suc.prems[unfolded spec_getToken_Suc]
  show ?case
  proof (cases "?E = []")
    case True
    with got show ?thesis by simp
  next
    case False
    note ne = False
    then have "?k mod length ?E < length ?E" by simp
    from enabledPositions_nth(2)[OF this] have len: "?pos < length (sm_accounts st)" .
    show ?thesis
    proof (cases "spec_isExpired w (sw_now w ?k) (sm_accounts st ! ?pos)")
      case False
      with got ne have r: "r = sm_accounts st ! ?pos" and s: "st' = ?st1" by auto
      have "r \<in> set (sm_accounts st')" using len r s by simp
      moreover have "\<not> spec_isExpired w (sw_now w ?k) r" using False r by simp
      moreover have "sm_currentIndex st' = Suc ?k" using s by simp
      ultimately show ?thesis by blast
    next
      case True
      note stale = True
      show ?thesis
      proof (cases "sw_refresh w ?k (sm_accounts st ! ?pos)")
        case (Some refreshed)
        with got ne stale have r: "r = refreshed"
          and s: "st' = st\<lparr>sm_currentIndex := Suc ?k,
                           sm_accounts := (sm_accounts st)[?pos := refreshed],
                           sm_file := (sm_accounts st)[?pos := refreshed]\<rparr>" by auto
        have "r \<in> set (sm_accounts st')" using len r s by (simp add: set_update_memI)
        moreover have "sw_refresh w ?k (sm_accounts st ! ?pos) = Some r" using Some r by simp
        moreover have "sm_file st' = sm_accounts st'" using s by simp
        moreover have "sm_currentIndex st' = Suc ?k" using s by simp
        ultimately show ?thesis using stale by blast
      next
        case None
        show ?thesis
        proof (cases "length ?E > 1")
          case True
          with got ne stale None
          have "spec_getToken fuel w ?st1 = Some (Token r, st')" by simp
          from Suc.IH[OF this] obtain j where j: "sm_currentIndex ?st1 \<le> j"
            and rest: "sm_currentIndex st' = Suc j \<and> r \<in> set (sm_accounts st') \<and>
               (\<not> spec_isExpired w (sw_now w j) r \<or>
                (\<exists>a. spec_isExpired w (sw_now w j) a \<and> sw_refresh w j a = Some r
                      \<and> sm_file st' = sm_accounts st'))"
            by blast
          have "?k \<le> j" using j by simp
          with rest show ?thesis by blast
        next
          case False
          with got ne stale None show ?thesis by auto
        qed
      qed
    qed
  qed
qed

subsection \<open>Refresh before yield, and rotation\<close>

lemmas store_samples = cx_store_def cx_acc_off_def cx_acc_oauth_def cx_acc_key_def cw_late_def
  cw_early_def kr_store_def kr_acc_off_def kr_acc_social_def kr_acc_plain_def kw_late_def
  kw_early_def

lemma sample_positions:
  "enabledPositions cx_enable (cx_accounts cx_store) = [1, 2]"
  "enabledPositions kr_enable (kr_accounts kr_store) = [1, 2]"
  "enabledPositions cx_enable (cx_accounts cx_store_single) = [0]"
  "enabledPositions kr_enable (kr_accounts kr_store_single) = [0]"
  "enabledPositions sa_enabled (sm_accounts sp_store) = [0]"
  "enabledPositions cx_enable (cx_accounts cx_store_epoch) = [0]"
  by (simp_all add: enabledPositions_def store_samples upt_rec cx_store_single_def
      kr_store_single_def sp_store_def sp_acc_def cx_store_epoch_def cx_acc_epoch_def)

text \<open>
  C4, as the claim has it, fails on a Codex OAuth account whose \<open>expires_at\<close> is the
  instant 0: the account is enabled, its expiry lies before \<open>now\<close> plus the buffer
  (\<open>now >= expiresAt - refreshBuffer\<close> holds with the clock at 500000), and \<open>getToken\<close>
  yields it as it is, with nothing posted to the token endpoint.
\<close>

theorem C4_refresh_before_yield_counterexample:
  "cx_enable cx_acc_epoch \<noteq> Some False
 \<and> auth_type cx_acc_epoch = AUTH_TYPE_OAUTH
 \<and> expires_at cx_acc_epoch = Some (Finite 0)
 \<and> js_ge (cw_now cw_late 0) (js_sub (Finite 0) TOKEN_REFRESH_BUFFER)
 \<and> codex_getToken 1 cw_late cx_store_epoch
       = Some (Token cx_acc_epoch, cx_store_epoch\<lparr>cx_currentIndex := 1\<rparr>)
 \<and> cx_accounts (cx_store_epoch\<lparr>cx_currentIndex := 1\<rparr>) = [cx_acc_epoch]
 \<and> cx_posted (cx_store_epoch\<lparr>cx_currentIndex := 1\<rparr>) = []"
proof -
  have n: "\<not> codex_needsRefresh (cw_now cw_late 0) cx_acc_epoch"
    by (simp add: codex_needsRefresh_def codex_isExpired_def cx_acc_epoch_def)
  have g: "codex_getToken 1 cw_late cx_store_epoch
       = Some (Token cx_acc_epoch, cx_store_epoch\<lparr>cx_currentIndex := 1\<rparr>)"
    unfolding One_nat_def codex_getToken_Suc sample_positions
    using n by (simp add: cx_store_epoch_def)
  have s: "js_ge (cw_now cw_late 0) (js_sub (Finite 0) TOKEN_REFRESH_BUFFER)"
    by (simp add: cw_late_def TOKEN_REFRESH_BUFFER_def js_sub_def)
  have r: "cx_enable cx_acc_epoch \<noteq> Some False" "auth_type cx_acc_epoch = AUTH_TYPE_OAUTH"
    "expires_at cx_acc_epoch = Some (Finite 0)"
    "cx_accounts (cx_store_epoch\<lparr>cx_currentIndex := 1\<rparr>) = [cx_acc_epoch]"
    "cx_posted (cx_store_epoch\<lparr>cx_currentIndex := 1\<rparr>) = []"
    by (simp_all add: cx_acc_epoch_def cx_acc_oauth_def AUTH_TYPE_OAUTH_def cx_store_epoch_def)
  from r(1,2,3) s g r(4,5) show ?thesis by (intro conjI)
qed

text \<open>
  C4. In each store, for every call of \<open>getToken\<close> and the enabled account it selects:
  the account is stale when \<open>now >= expiresAt - refreshBuffer\<close> (ten minutes in the Codex
  and the Kiro store; for an instant of whole milliseconds that is \<open>expiresAt\<close> at or
  before \<open>now\<close> plus ten minutes), where the Codex store tests only an OAuth account
  whose \<open>expires_at\<close> is set and is not 0, and the Antigravity store only an account
  that holds a refresh token. A stale account is refreshed before anything is yielded:
  the outcome of the call is the outcome of \<open>refreshToken\<close> on that account. When the
  refresh completes (the endpoint answers with the fields asked for and the accounts
  file is written), the call yields the account as the refresh left it, stored at its
  place and persisted, after exactly one post. When the refresh does not complete,
  \<open>refreshToken\<close> throws, the accounts file is as before, and the call selects again
  (more than one enabled account) or throws: the stale account is not yielded. If the
  account holds a refresh token, the request is posted before the call returns at all.
  An account that is not stale is yielded as it is. And whatever account any call
  yields, in whatever round of its retries, either was not stale in that round or is
  what a completed refresh of a stale account left.
\<close>
theorem C4_refresh_before_yield:
  assumes "E = enabledPositions cx_enable (cx_accounts st)"
    and "k = cx_currentIndex st" "pos = E ! (k mod length E)" "a = cx_accounts st ! pos"
    and "KE = enabledPositions kr_enable (kr_accounts kst)"
    and "kk = kr_currentIndex kst" "kpos = KE ! (kk mod length KE)" "ka = kr_accounts kst ! kpos"
    and "SE = enabledPositions sa_enabled (sm_accounts sst)"
    and "sk = sm_currentIndex sst" "spos = SE ! (sk mod length SE)" "sa = sm_accounts sst ! spos"
  shows "(codex_needsRefresh now c \<longleftrightarrow>
        auth_type c = AUTH_TYPE_OAUTH \<and>
        (\<exists>ea. expires_at c = Some ea \<and> ea \<noteq> Finite 0 \<and>
              js_ge now (js_sub ea (Finite (10 * 60 * 1000)))))
    \<and> (kiro_isExpired now kc \<longleftrightarrow>
        (\<exists>ea. expiresAt kc = Instant ea \<and> js_ge now (js_sub ea (Finite (10 * 60 * 1000)))))
    \<and> (spec_isExpired sw now sc \<longleftrightarrow>
        sa_refreshToken sc \<noteq> [] \<and>
        (\<exists>ea. sa_expiresAt sc = Some ea \<and> js_ge now (js_sub ea (sw_refreshBuffer sw))))
    \<and> (\<forall>x y. \<bar>x\<bar> \<le> 2 ^ 52 \<longrightarrow>
        (js_ge (Finite y) (js_sub (Finite (of_int x)) (Finite (10 * 60 * 1000)))
           \<longleftrightarrow> of_int x \<le> y + 10 * 60 * 1000))
    \<and> (E \<noteq> [] \<and> codex_needsRefresh (cw_now w k) a \<longrightarrow>
        codex_getToken (Suc fuel) w st =
           (case codex_refreshToken w k (st\<lparr>cx_currentIndex := k + 1\<rparr>) pos of
              (Inr refreshed, st2) \<Rightarrow> Some (Token refreshed, st2)
            | (Inl err, st2) \<Rightarrow>
                if 1 < length E then codex_getToken fuel w st2 else Some (Failed err, st2))
      \<and> ((\<exists>r. codex_refreshedBy w k a r) \<longrightarrow>
           (\<exists>r st'. codex_getToken (Suc fuel) w st = Some (Token r, st')
              \<and> codex_refreshedBy w k a r
              \<and> cx_accounts st' = (cx_accounts st)[pos := r]
              \<and> cx_file st' = cx_accounts st'
              \<and> cx_posted st' = cx_posted st @ [refresh_token a]
              \<and> cx_currentIndex st' = k + 1))
      \<and> (\<not> (\<exists>r. codex_refreshedBy w k a r) \<longrightarrow>
           (\<exists>err st2. codex_refreshToken w k (st\<lparr>cx_currentIndex := k + 1\<rparr>) pos = (Inl err, st2)
              \<and> cx_file st2 = cx_file st
              \<and> cx_currentIndex st2 = k + 1
              \<and> codex_getToken (Suc fuel) w st =
                  (if 1 < length E then codex_getToken fuel w st2 else Some (Failed err, st2))))
      \<and> (refresh_token a \<noteq> [] \<longrightarrow>
           (\<forall>res st'. codex_getToken (Suc fuel) w st = Some (res, st') \<longrightarrow>
              (\<exists>ys. cx_posted st' = cx_posted st @ refresh_token a # ys))))
    \<and> (E \<noteq> [] \<and> \<not> codex_needsRefresh (cw_now w k) a \<longrightarrow>
        codex_getToken (Suc fuel) w st = Some (Token a, st\<lparr>cx_currentIndex := k + 1\<rparr>))
    \<and> (\<forall>n st0 r st'. codex_getToken n w st0 = Some (Token r, st') \<longrightarrow>
        (\<exists>j. cx_currentIndex st0 \<le> j \<and> cx_currentIndex st' = Suc j \<and> r \<in> set (cx_accounts st') \<and>
           (\<not> codex_needsRefresh (cw_now w j) r \<or>
            (\<exists>a0. codex_needsRefresh (cw_now w j) a0 \<and> codex_refreshedBy w j a0 r
                  \<and> cx_file st' = cx_accounts st'))))
    \<and> (KE \<noteq> [] \<and> kiro_isExpired (kw_now kw kk) ka \<longrightarrow>
        kiro_getToken (Suc fuel) kw kst =
           (case kiro_refreshToken kw kk (kst\<lparr>kr_currentIndex := kk + 1\<rparr>) kpos of
              (Inr refreshed, st2) \<Rightarrow> Some (Token (kr_accounts st2 ! kpos), st2)
            | (Inl err, st2) \<Rightarrow>
                if 1 < length KE then kiro_getToken fuel kw st2 else Some (Failed err, st2))
      \<and> ((\<exists>r. kiro_refreshedBy kw kk ka r) \<longrightarrow>
           (\<exists>r st'. kiro_getToken (Suc fuel) kw kst = Some (Token r, st')
              \<and> kiro_refreshedBy kw kk ka r
              \<and> kr_accounts st' = (kr_accounts kst)[kpos := r]
              \<and> kr_file st' = kr_accounts st'
              \<and> kr_posted st' = kr_posted kst @ [kiro_refreshRequest ka]
              \<and> kr_currentIndex st' = kk + 1))
      \<and> (\<not> (\<exists>r. kiro_refreshedBy kw kk ka r) \<longrightarrow>
           (\<exists>err st2. kiro_refreshToken kw kk (kst\<lparr>kr_currentIndex := kk + 1\<rparr>) kpos = (Inl err, st2)
              \<and> kr_file st2 = kr_file kst
              \<and> kr_currentIndex st2 = kk + 1
              \<and> kiro_getToken (Suc fuel) kw kst =
                  (if 1 < length KE then kiro_getToken fuel kw st2 else Some (Failed err, st2))))
      \<and> (refreshToken ka \<noteq> [] \<longrightarrow>
           (\<forall>res st'. kiro_getToken (Suc fuel) kw kst = Some (res, st') \<longrightarrow>
              (\<exists>ys. kr_posted st' = kr_posted kst @ kiro_refreshRequest ka # ys))))
    \<and> (KE \<noteq> [] \<and> \<not> kiro_isExpired (kw_now kw kk) ka \<longrightarrow>
        kiro_getToken (Suc fuel) kw kst = Some (Token ka, kst\<lparr>kr_currentIndex := kk + 1\<rparr>))
    \<and> (\<forall>n st0 r st'. kiro_getToken n kw st0 = Some (Token r, st') \<longrightarrow>
        (\<exists>j. kr_currentIndex st0 \<le> j \<and> kr_currentIndex st' = Suc j \<and> r \<in> set (kr_accounts st') \<and>
           (\<not> kiro_isExpired (kw_now kw j) r \<or>
            (\<exists>a0. kiro_isExpired (kw_now kw j) a0 \<and> kiro_refreshedBy kw j a0 r
                  \<and> kr_file st' = kr_accounts st'))))
    \<and> (SE \<noteq> [] \<and> spec_isExpired sw (sw_now sw sk) sa \<longrightarrow>
        (\<forall>r. sw_refresh sw sk sa = Some r \<longrightarrow>
           spec_getToken (Suc fuel) sw sst =
             Some (Token r, sst\<lparr>sm_currentIndex := sk + 1,
                                 sm_accounts := (sm_accounts sst)[spos := r],
                                 sm_file := (sm_accounts sst)[spos := r]\<rparr>))
      \<and> (sw_refresh sw sk sa = None \<longrightarrow>
           spec_getToken (Suc fuel) sw sst =
             (if 1 < length SE then spec_getToken fuel sw (sst\<lparr>sm_currentIndex := sk + 1\<rparr>)
              else Some (Failed RefreshRequestFailed, sst\<lparr>sm_currentIndex := sk + 1\<rparr>))))
    \<and> (SE \<noteq> [] \<and> \<not> spec_isExpired sw (sw_now sw sk) sa \<longrightarrow>
        spec_getToken (Suc fuel) sw sst = Some (Token sa, sst\<lparr>sm_currentIndex := sk + 1\<rparr>))
    \<and> (\<forall>n st0 r st'. spec_getToken n sw st0 = Some (Token r, st') \<longrightarrow>
        (\<exists>j. sm_currentIndex st0 \<le> j \<and> sm_currentIndex st' = Suc j \<and> r \<in> set (sm_accounts st') \<and>
           (\<not> spec_isExpired sw (sw_now sw j) r \<or>
            (\<exists>a0. spec_isExpired sw (sw_now sw j) a0 \<and> sw_refresh sw j a0 = Some r
                  \<and> sm_file st' = sm_accounts st'))))"
proof -
  have ci: "(codex_needsRefresh now c \<longleftrightarrow>
        auth_type c = AUTH_TYPE_OAUTH \<and>
        (\<exists>ea. expires_at c = Some ea \<and> ea \<noteq> Finite 0 \<and>
              js_ge now (js_sub ea (Finite (10 * 60 * 1000)))))"
    by (rule codex_needsRefresh_iff)
  have ki: "(kiro_isExpired now kc \<longleftrightarrow>
        (\<exists>ea. expiresAt kc = Instant ea \<and> js_ge now (js_sub ea (Finite (10 * 60 * 1000)))))"
    by (rule kiro_isExpired_iff)
  have si: "(spec_isExpired sw now sc \<longleftrightarrow>
        sa_refreshToken sc \<noteq> [] \<and>
        (\<exists>ea. sa_expiresAt sc = Some ea \<and> js_ge now (js_sub ea (sw_refreshBuffer sw))))"
    by (rule spec_isExpired_iff)
  have wh: "(\<forall>x y. \<bar>x\<bar> \<le> 2 ^ 52 \<longrightarrow>
        (js_ge (Finite y) (js_sub (Finite (of_int x)) (Finite (10 * 60 * 1000)))
           \<longleftrightarrow> of_int x \<le> y + 10 * 60 * 1000))"
    using stale_whole_instant by blast
  have cs: "(E \<noteq> [] \<and> codex_needsRefresh (cw_now w k) a \<longrightarrow>
        codex_getToken (Suc fuel) w st =
           (case codex_refreshToken w k (st\<lparr>cx_currentIndex := k + 1\<rparr>) pos of
              (Inr refreshed, st2) \<Rightarrow> Some (Token refreshed, st2)
            | (Inl err, st2) \<Rightarrow>
                if 1 < length E then codex_getToken fuel w st2 else Some (Failed err, st2))
      \<and> ((\<exists>r. codex_refreshedBy w k a r) \<longrightarrow>
           (\<exists>r st'. codex_getToken (Suc fuel) w st = Some (Token r, st')
              \<and> codex_refreshedBy w k a r
              \<and> cx_accounts st' = (cx_accounts st)[pos := r]
              \<and> cx_file st' = cx_accounts st'
              \<and> cx_posted st' = cx_posted st @ [refresh_token a]
              \<and> cx_currentIndex st' = k + 1))
      \<and> (\<not> (\<exists>r. codex_refreshedBy w k a r) \<longrightarrow>
           (\<exists>err st2. codex_refreshToken w k (st\<lparr>cx_currentIndex := k + 1\<rparr>) pos = (Inl err, st2)
              \<and> cx_file st2 = cx_file st
              \<and> cx_currentIndex st2 = k + 1
              \<and> codex_getToken (Suc fuel) w st =
                  (if 1 < length E then codex_getToken fuel w st2 else Some (Failed err, st2))))
      \<and> (refresh_token a \<noteq> [] \<longrightarrow>
           (\<forall>res st'. codex_getToken (Suc fuel) w st = Some (res, st') \<longrightarrow>
              (\<exists>ys. cx_posted st' = cx_posted st @ refresh_token a # ys))))"
  proof (intro impI, elim conjE)
    assume ne: "E \<noteq> []" and stale: "codex_needsRefresh (cw_now w k) a"
    note s = codex_stale[OF assms(1) ne assms(2,3,4) stale]
    have e: "codex_getToken (Suc fuel) w st =
           (case codex_refreshToken w k (st\<lparr>cx_currentIndex := k + 1\<rparr>) pos of
              (Inr refreshed, st2) \<Rightarrow> Some (Token refreshed, st2)
            | (Inl err, st2) \<Rightarrow>
                if 1 < length E then codex_getToken fuel w st2 else Some (Failed err, st2))"
      using s(1)[where fuel=fuel] .
    have o: "((\<exists>r. codex_refreshedBy w k a r) \<longrightarrow>
           (\<exists>r st'. codex_getToken (Suc fuel) w st = Some (Token r, st')
              \<and> codex_refreshedBy w k a r
              \<and> cx_accounts st' = (cx_accounts st)[pos := r]
              \<and> cx_file st' = cx_accounts st'
              \<and> cx_posted st' = cx_posted st @ [refresh_token a]
              \<and> cx_currentIndex st' = k + 1))"
      using s(2)[where fuel=fuel] by blast
    have b: "(\<not> (\<exists>r. codex_refreshedBy w k a r) \<longrightarrow>
           (\<exists>err st2. codex_refreshToken w k (st\<lparr>cx_currentIndex := k + 1\<rparr>) pos = (Inl err, st2)
              \<and> cx_file st2 = cx_file st
              \<and> cx_currentIndex st2 = k + 1
              \<and> codex_getToken (Suc fuel) w st =
                  (if 1 < length E then codex_getToken fuel w st2 else Some (Failed err, st2))))"
      using s(3)[where fuel=fuel] by blast
    have p: "(refresh_token a \<noteq> [] \<longrightarrow>
           (\<forall>res st'. codex_getToken (Suc fuel) w st = Some (res, st') \<longrightarrow>
              (\<exists>ys. cx_posted st' = cx_posted st @ refresh_token a # ys)))"
      using s(4)[where fuel=fuel] by blast
    from e o b p show "codex_getToken (Suc fuel) w st =
           (case codex_refreshToken w k (st\<lparr>cx_currentIndex := k + 1\<rparr>) pos of
              (Inr refreshed, st2) \<Rightarrow> Some (Token refreshed, st2)
            | (Inl err, st2) \<Rightarrow>
                if 1 < length E then codex_getToken fuel w st2 else Some (Failed err, st2))
      \<and> ((\<exists>r. codex_refreshedBy w k a r) \<longrightarrow>
           (\<exists>r st'. codex_getToken (Suc fuel) w st = Some (Token r, st')
              \<and> codex_refreshedBy w k a r
              \<and> cx_accounts st' = (cx_accounts st)[pos := r]
              \<and> cx_file st' = cx_accounts st'
              \<and> cx_posted st' = cx_posted st @ [refresh_token a]
              \<and> cx_currentIndex st' = k + 1))
      \<and> (\<not> (\<exists>r. codex_refreshedBy w k a r) \<longrightarrow>
           (\<exists>err st2. codex_refreshToken w k (st\<lparr>cx_currentIndex := k + 1\<rparr>) pos = (Inl err, st2)
              \<and> cx_file st2 = cx_file st
              \<and> cx_currentIndex st2 = k + 1
              \<and> codex_getToken (Suc fuel) w st =
                  (if 1 < length E then codex_getToken fuel w st2 else Some (Failed err, st2))))
      \<and> (refresh_token a \<noteq> [] \<longrightarrow>
           (\<forall>res st'. codex_getToken (Suc fuel) w st = Some (res, st') \<longrightarrow>
              (\<exists>ys. cx_posted st' = cx_posted st @ refresh_token a # ys)))"
      by (intro conjI)
  qed
  have cf: "(E \<noteq> [] \<and> \<not> codex_needsRefresh (cw_now w k) a \<longrightarrow>
        codex_getToken (Suc fuel) w st = Some (Token a, st\<lparr>cx_currentIndex := k + 1\<rparr>))"
  proof (intro impI, elim conjE)
    assume ne: "E \<noteq> []" and fr: "\<not> codex_needsRefresh (cw_now w k) a"
    show "codex_getToken (Suc fuel) w st = Some (Token a, st\<lparr>cx_currentIndex := k + 1\<rparr>)"
      unfolding codex_getToken_Suc using ne fr assms(1,2,3,4) by simp
  qed
  have cy: "(\<forall>n st0 r st'. codex_getToken n w st0 = Some (Token r, st') \<longrightarrow>
        (\<exists>j. cx_currentIndex st0 \<le> j \<and> cx_currentIndex st' = Suc j \<and> r \<in> set (cx_accounts st') \<and>
           (\<not> codex_needsRefresh (cw_now w j) r \<or>
            (\<exists>a0. codex_needsRefresh (cw_now w j) a0 \<and> codex_refreshedBy w j a0 r
                  \<and> cx_file st' = cx_accounts st'))))"
    using codex_yield by blast
  have ks: "(KE \<noteq> [] \<and> kiro_isExpired (kw_now kw kk) ka \<longrightarrow>
        kiro_getToken (Suc fuel) kw kst =
           (case kiro_refreshToken kw kk (kst\<lparr>kr_currentIndex := kk + 1\<rparr>) kpos of
              (Inr refreshed, st2) \<Rightarrow> Some (Token (kr_accounts st2 ! kpos), st2)
            | (Inl err, st2) \<Rightarrow>
                if 1 < length KE then kiro_getToken fuel kw st2 else Some (Failed err, st2))
      \<and> ((\<exists>r. kiro_refreshedBy kw kk ka r) \<longrightarrow>
           (\<exists>r st'. kiro_getToken (Suc fuel) kw kst = Some (Token r, st')
              \<and> kiro_refreshedBy kw kk ka r
              \<and> kr_accounts st' = (kr_accounts kst)[kpos := r]
              \<and> kr_file st' = kr_accounts st'
              \<and> kr_posted st' = kr_posted kst @ [kiro_refreshRequest ka]
              \<and> kr_currentIndex st' = kk + 1))
      \<and> (\<not> (\<exists>r. kiro_refreshedBy kw kk ka r) \<longrightarrow>
           (\<exists>err st2. kiro_refreshToken kw kk (kst\<lparr>kr_currentIndex := kk + 1\<rparr>) kpos = (Inl err, st2)
              \<and> kr_file st2 = kr_file kst
              \<and> kr_currentIndex st2 = kk + 1
              \<and> kiro_getToken (Suc fuel) kw kst =
                  (if 1 < length KE then kiro_getToken fuel kw st2 else Some (Failed err, st2))))
      \<and> (refreshToken ka \<noteq> [] \<longrightarrow>
           (\<forall>res st'. kiro_getToken (Suc fuel) kw kst = Some (res, st') \<longrightarrow>
              (\<exists>ys. kr_posted st' = kr_posted kst @ kiro_refreshRequest ka # ys))))"
  proof (intro impI, elim conjE)
    assume ne: "KE \<noteq> []" and stale: "kiro_isExpired (kw_now kw kk) ka"
    note s = kiro_stale[OF assms(5) ne assms(6,7,8) stale]
    have e: "kiro_getToken (Suc fuel) kw kst =
           (case kiro_refreshToken kw kk (kst\<lparr>kr_currentIndex := kk + 1\<rparr>) kpos of
              (Inr refreshed, st2) \<Rightarrow> Some (Token (kr_accounts st2 ! kpos), st2)
            | (Inl err, st2) \<Rightarrow>
                if 1 < length KE then kiro_getToken fuel kw st2 else Some (Failed err, st2))"
      using s(1)[where fuel=fuel] .
    have o: "((\<exists>r. kiro_refreshedBy kw kk ka r) \<longrightarrow>
           (\<exists>r st'. kiro_getToken (Suc fuel) kw kst = Some (Token r, st')
              \<and> kiro_refreshedBy kw kk ka r
              \<and> kr_accounts st' = (kr_accounts kst)[kpos := r]
              \<and> kr_file st' = kr_accounts st'
              \<and> kr_posted st' = kr_posted kst @ [kiro_refreshRequest ka]
              \<and> kr_currentIndex st' = kk + 1))"
      using s(2)[where fuel=fuel] by blast
    have b: "(\<not> (\<exists>r. kiro_refreshedBy kw kk ka r) \<longrightarrow>
           (\<exists>err st2. kiro_refreshToken kw kk (kst\<lparr>kr_currentIndex := kk + 1\<rparr>) kpos = (Inl err, st2)
              \<and> kr_file st2 = kr_file kst
              \<and> kr_currentIndex st2 = kk + 1
              \<and> kiro_getToken (Suc fuel) kw kst =
                  (if 1 < length KE then kiro_getToken fuel kw st2 else Some (Failed err, st2))))"
      using s(3)[where fuel=fuel] by blast
    have p: "(refreshToken ka \<noteq> [] \<longrightarrow>
           (\<forall>res st'. kiro_getToken (Suc fuel) kw kst = Some (res, st') \<longrightarrow>
              (\<exists>ys. kr_posted st' = kr_posted kst @ kiro_refreshRequest ka # ys)))"
      using s(4)[where fuel=fuel] by blast
    from e o b p show "kiro_getToken (Suc fuel) kw kst =
           (case kiro_refreshToken kw kk (kst\<lparr>kr_currentIndex := kk + 1\<rparr>) kpos of
              (Inr refreshed, st2) \<Rightarrow> Some (Token (kr_accounts st2 ! kpos), st2)
            | (Inl err, st2) \<Rightarrow>
                if 1 < length KE then kiro_getToken fuel kw st2 else Some (Failed err, st2))
      \<and> ((\<exists>r. kiro_refreshedBy kw kk ka r) \<longrightarrow>
           (\<exists>r st'. kiro_getToken (Suc fuel) kw kst = Some (Token r, st')
              \<and> kiro_refreshedBy kw kk ka r
              \<and> kr_accounts st' = (kr_accounts kst)[kpos := r]
              \<and> kr_file st' = kr_accounts st'
              \<and> kr_posted st' = kr_posted kst @ [kiro_refreshRequest ka]
              \<and> kr_currentIndex st' = kk + 1))
      \<and> (\<not> (\<exists>r. kiro_refreshedBy kw kk ka r) \<longrightarrow>
           (\<exists>err st2. kiro_refreshToken kw kk (kst\<lparr>kr_currentIndex := kk + 1\<rparr>) kpos = (Inl err, st2)
              \<and> kr_file st2 = kr_file kst
              \<and> kr_currentIndex st2 = kk + 1
              \<and> kiro_getToken (Suc fuel) kw kst =
                  (if 1 < length KE then kiro_getToken fuel kw st2 else Some (Failed err, st2))))
      \<and> (refreshToken ka \<noteq> [] \<longrightarrow>
           (\<forall>res st'. kiro_getToken (Suc fuel) kw kst = Some (res, st') \<longrightarrow>
              (\<exists>ys. kr_posted st' = kr_posted kst @ kiro_refreshRequest ka # ys)))"
      by (intro conjI)
  qed
  have kf: "(KE \<noteq> [] \<and> \<not> kiro_isExpired (kw_now kw kk) ka \<longrightarrow>
        kiro_getToken (Suc fuel) kw kst = Some (Token ka, kst\<lparr>kr_currentIndex := kk + 1\<rparr>))"
  proof (intro impI, elim conjE)
    assume ne: "KE \<noteq> []" and fr: "\<not> kiro_isExpired (kw_now kw kk) ka"
    show "kiro_getToken (Suc fuel) kw kst = Some (Token ka, kst\<lparr>kr_currentIndex := kk + 1\<rparr>)"
      unfolding kiro_getToken_Suc using ne fr assms(5,6,7,8) by simp
  qed
  have ky: "(\<forall>n st0 r st'. kiro_getToken n kw st0 = Some (Token r, st') \<longrightarrow>
        (\<exists>j. kr_currentIndex st0 \<le> j \<and> kr_currentIndex st' = Suc j \<and> r \<in> set (kr_accounts st') \<and>
           (\<not> kiro_isExpired (kw_now kw j) r \<or>
            (\<exists>a0. kiro_isExpired (kw_now kw j) a0 \<and> kiro_refreshedBy kw j a0 r
                  \<and> kr_file st' = kr_accounts st'))))"
    using kiro_yield by blast
  have ss: "(SE \<noteq> [] \<and> spec_isExpired sw (sw_now sw sk) sa \<longrightarrow>
        (\<forall>r. sw_refresh sw sk sa = Some r \<longrightarrow>
           spec_getToken (Suc fuel) sw sst =
             Some (Token r, sst\<lparr>sm_currentIndex := sk + 1,
                                 sm_accounts := (sm_accounts sst)[spos := r],
                                 sm_file := (sm_accounts sst)[spos := r]\<rparr>))
      \<and> (sw_refresh sw sk sa = None \<longrightarrow>
           spec_getToken (Suc fuel) sw sst =
             (if 1 < length SE then spec_getToken fuel sw (sst\<lparr>sm_currentIndex := sk + 1\<rparr>)
              else Some (Failed RefreshRequestFailed, sst\<lparr>sm_currentIndex := sk + 1\<rparr>))))"
  proof (intro impI, elim conjE)
    assume ne: "SE \<noteq> []" and stale: "spec_isExpired sw (sw_now sw sk) sa"
    note s = spec_stale[OF assms(9) ne assms(10,11,12) stale]
    have o: "(\<forall>r. sw_refresh sw sk sa = Some r \<longrightarrow>
           spec_getToken (Suc fuel) sw sst =
             Some (Token r, sst\<lparr>sm_currentIndex := sk + 1,
                                 sm_accounts := (sm_accounts sst)[spos := r],
                                 sm_file := (sm_accounts sst)[spos := r]\<rparr>))"
      using s(1)[where fuel=fuel] by blast
    have b: "(sw_refresh sw sk sa = None \<longrightarrow>
           spec_getToken (Suc fuel) sw sst =
             (if 1 < length SE then spec_getToken fuel sw (sst\<lparr>sm_currentIndex := sk + 1\<rparr>)
              else Some (Failed RefreshRequestFailed, sst\<lparr>sm_currentIndex := sk + 1\<rparr>)))"
      using s(2)[where fuel=fuel] by blast
    from o b show "(\<forall>r. sw_refresh sw sk sa = Some r \<longrightarrow>
           spec_getToken (Suc fuel) sw sst =
             Some (Token r, sst\<lparr>sm_currentIndex := sk + 1,
                                 sm_accounts := (sm_accounts sst)[spos := r],
                                 sm_file := (sm_accounts sst)[spos := r]\<rparr>))
      \<and> (sw_refresh sw sk sa = None \<longrightarrow>
           spec_getToken (Suc fuel) sw sst =
             (if 1 < length SE then spec_getToken fuel sw (sst\<lparr>sm_currentIndex := sk + 1\<rparr>)
              else Some (Failed RefreshRequestFailed, sst\<lparr>sm_currentIndex := sk + 1\<rparr>)))"
      by (intro conjI)
  qed
  have sf: "(SE \<noteq> [] \<and> \<not> spec_isExpired sw (sw_now sw sk) sa \<longrightarrow>
        spec_getToken (Suc fuel) sw sst = Some (Token sa, sst\<lparr>sm_currentIndex := sk + 1\<rparr>))"
    using spec_fresh[OF assms(9) _ assms(10,11,12), where fuel=fuel and w=sw] by blast
  have sy: "(\<forall>n st0 r st'. spec_getToken n sw st0 = Some (Token r, st') \<longrightarrow>
        (\<exists>j. sm_currentIndex st0 \<le> j \<and> sm_currentIndex st' = Suc j \<and> r \<in> set (sm_accounts st') \<and>
           (\<not> spec_isExpired sw (sw_now sw j) r \<or>
            (\<exists>a0. spec_isExpired sw (sw_now sw j) a0 \<and> sw_refresh sw j a0 = Some r
                  \<and> sm_file st' = sm_accounts st'))))"
    using spec_yield by blast
  from ci ki si wh cs cf cy ks kf ky ss sf sy show ?thesis by (intro conjI)
qed

theorem C4_refresh_before_yield_witness:
  "codex_needsRefresh (Finite 500000) cx_acc_oauth
 \<and> js_ge (Finite 500000) (js_sub (Finite (of_int 1000000)) (Finite (10 * 60 * 1000)))
 \<and> (\<exists>r st'. codex_getToken (Suc 0) cw_late cx_store = Some (Token r, st')
        \<and> access_token r = ''at-new'' \<and> refresh_token r = ''rt-new''
        \<and> expires_at r = Some (Finite 4100100)
        \<and> cx_accounts st' = (cx_accounts cx_store)[1 := r]
        \<and> cx_file st' = cx_accounts st'
        \<and> cx_posted st' = [''rt1''])
 \<and> (\<exists>st2. codex_getToken (Suc 0) cw_down cx_store_single
               = Some (Failed RefreshRequestFailed, st2)
        \<and> cx_file st2 = [cx_acc_oauth])
 \<and> codex_getToken (Suc 0) cw_early cx_store
      = Some (Token cx_acc_oauth, cx_store\<lparr>cx_currentIndex := 1\<rparr>)
 \<and> cx_acc_oauth \<in> set (cx_accounts (cx_store\<lparr>cx_currentIndex := 1\<rparr>))
 \<and> (\<exists>r st'. kiro_getToken (Suc 0) kw_late kr_store = Some (Token r, st')
        \<and> accessToken r = ''at-new''
        \<and> expiresAt r = Instant (Finite 4100100)
        \<and> kr_accounts st' = (kr_accounts kr_store)[1 := r]
        \<and> kr_file st' = kr_accounts st'
        \<and> kr_posted st' = [\<lparr>rq_url = ''https://prod.us-east-1.auth.desktop.kiro.dev/refreshToken'',
                             rq_refreshToken = ''rt1'', rq_client = None\<rparr>])
 \<and> (\<exists>st2. kiro_getToken (Suc 0) kw_down kr_store_single
               = Some (Failed RefreshRequestFailed, st2)
        \<and> kr_file st2 = [kr_acc_social])
 \<and> kiro_getToken (Suc 0) kw_early kr_store
      = Some (Token kr_acc_social, kr_store\<lparr>kr_currentIndex := 1\<rparr>)
 \<and> spec_getToken (Suc 0) sw_late sp_store
      = Some (Token (sp_acc\<lparr>sa_accessToken := ''at-new'', sa_expiresAt := Some (Finite 4100100)\<rparr>),
              \<lparr>sm_accounts = [sp_acc\<lparr>sa_accessToken := ''at-new'',
                                       sa_expiresAt := Some (Finite 4100100)\<rparr>],
               sm_currentIndex = 1,
               sm_file = [sp_acc\<lparr>sa_accessToken := ''at-new'',
                                   sa_expiresAt := Some (Finite 4100100)\<rparr>]\<rparr>)
 \<and> spec_getToken (Suc 0) sw_down sp_store
      = Some (Failed RefreshRequestFailed, sp_store\<lparr>sm_currentIndex := 1\<rparr>)
 \<and> spec_getToken (Suc 0) (sw_late\<lparr>sw_now := (\<lambda>k. Finite 0)\<rparr>) sp_store
      = Some (Token sp_acc, sp_store\<lparr>sm_currentIndex := 1\<rparr>)"
proof -
  have e: "[1, 2] = enabledPositions cx_enable (cx_accounts cx_store)"
    and ke: "[1, 2] = enabledPositions kr_enable (kr_accounts kr_store)"
    and se: "[0] = enabledPositions sa_enabled (sm_accounts sp_store)"
    and e1: "[0] = enabledPositions cx_enable (cx_accounts cx_store_single)"
    and ke1: "[0] = enabledPositions kr_enable (kr_accounts kr_store_single)"
    by (simp_all add: sample_positions)
  have k: "0 = cx_currentIndex cx_store" and kk: "0 = kr_currentIndex kr_store"
    and sk: "0 = sm_currentIndex sp_store" and k1: "0 = cx_currentIndex cx_store_single"
    and kk1: "0 = kr_currentIndex kr_store_single"
    by (simp_all add: cx_store_def kr_store_def sp_store_def cx_store_single_def
        kr_store_single_def)
  have p: "(1 :: nat) = [1, 2] ! (0 mod length [1 :: nat, 2])"
    and p1: "(0 :: nat) = [0] ! (0 mod length [0 :: nat])"
    by simp_all
  have a: "cx_acc_oauth = cx_accounts cx_store ! 1"
    and ka: "kr_acc_social = kr_accounts kr_store ! 1"
    and sa: "sp_acc = sm_accounts sp_store ! 0"
    and a1: "cx_acc_oauth = cx_accounts cx_store_single ! 0"
    and ka1: "kr_acc_social = kr_accounts kr_store_single ! 0"
    by (simp_all add: cx_store_def kr_store_def sp_store_def cx_store_single_def
        kr_store_single_def)
  note late = C4_refresh_before_yield[OF e k p a ke kk p ka se sk p1 sa,
      where w=cw_late and kw=kw_late and sw=sw_late and fuel=0 and now="Finite 500000"
        and c=cx_acc_oauth and kc=kr_acc_social and sc=sp_acc]
  note down = C4_refresh_before_yield[OF e1 k1 p1 a1 ke1 kk1 p1 ka1 se sk p1 sa,
      where w=cw_down and kw=kw_down and sw=sw_down and fuel=0 and now="Finite 500000"
        and c=cx_acc_oauth and kc=kr_acc_social and sc=sp_acc]
  note early = C4_refresh_before_yield[OF e k p a ke kk p ka se sk p1 sa,
      where w=cw_early and kw=kw_early and sw="sw_late\<lparr>sw_now := (\<lambda>k. Finite 0)\<rparr>"
        and fuel=0 and now="Finite 0" and c=cx_acc_oauth and kc=kr_acc_social and sc=sp_acc]
  note c2 = conjunct2
  have ten: "js_sub (Finite 1000000) (Finite 600000) = Finite 400000"
    by (simp add: js_sub_def)
  have exp: "js_add (Finite 500100) (js_mul (Finite 3600) (Finite 1000)) = Finite 4100100"
    by simp
  have w1: "codex_needsRefresh (Finite 500000) cx_acc_oauth"
    unfolding late[THEN conjunct1]
    by (simp add: cx_acc_oauth_def AUTH_TYPE_OAUTH_def ten)
  have kexp: "kiro_isExpired (Finite 500000) kr_acc_social"
    unfolding late[THEN c2, THEN conjunct1]
    by (simp add: kr_acc_social_def ten)
  have sexp: "spec_isExpired sw_late (Finite 500000) sp_acc"
    unfolding late[THEN c2, THEN c2, THEN conjunct1]
    by (simp add: sp_acc_def sw_late_def ten)
  have sexp1: "spec_isExpired sw_down (Finite 500000) sp_acc"
    unfolding down[THEN c2, THEN c2, THEN conjunct1]
    by (simp add: sp_acc_def sw_late_def sw_down_def ten)
  have w2: "js_ge (Finite 500000) (js_sub (Finite (of_int 1000000)) (Finite (10 * 60 * 1000)))"
  proof -
    have "\<bar>1000000 :: int\<bar> \<le> 2 ^ 52" by simp
    from late[THEN c2, THEN c2, THEN c2, THEN conjunct1, rule_format, OF this, of 500000]
    show ?thesis by simp
  qed
  have w3: "\<exists>r st'. codex_getToken (Suc 0) cw_late cx_store = Some (Token r, st')
        \<and> access_token r = ''at-new'' \<and> refresh_token r = ''rt-new''
        \<and> expires_at r = Some (Finite 4100100)
        \<and> cx_accounts st' = (cx_accounts cx_store)[1 := r]
        \<and> cx_file st' = cx_accounts st'
        \<and> cx_posted st' = [''rt1'']"
  proof -
    have ne: "[1 :: nat, 2] \<noteq> []" by simp
    have st: "codex_needsRefresh (cw_now cw_late 0) cx_acc_oauth"
      using w1 by (simp add: cw_late_def)
    have can: "\<exists>r. codex_refreshedBy cw_late 0 cx_acc_oauth r"
      by (rule exI[where x="cx_acc_oauth\<lparr>access_token := ''at-new'', refresh_token := ''rt-new'',
                                          expires_at := Some (Finite 4100100)\<rparr>"])
        (simp add: codex_refreshedBy_def cw_late_def cx_acc_oauth_def)
    from late[THEN c2, THEN c2, THEN c2, THEN c2, THEN conjunct1, rule_format, OF conjI[OF ne st],
        THEN c2, THEN conjunct1, rule_format, OF can]
    obtain r st' where g: "codex_getToken (Suc 0) cw_late cx_store = Some (Token r, st')"
      and g1: "codex_refreshedBy cw_late 0 cx_acc_oauth r"
      and g4: "cx_accounts st' = (cx_accounts cx_store)[1 := r]"
      and g5: "cx_file st' = cx_accounts st'"
      and g6: "cx_posted st' = cx_posted cx_store @ [refresh_token cx_acc_oauth]"
      by blast
    have "access_token r = ''at-new''" "refresh_token r = ''rt-new''"
      "expires_at r = Some (Finite 4100100)"
      using g1 by (simp_all add: codex_refreshedBy_def cw_late_def cx_acc_oauth_def)
    moreover have "cx_posted st' = [''rt1'']" using g6 by (simp add: cx_store_def cx_acc_oauth_def)
    ultimately show ?thesis using g g4 g5 by blast
  qed
  have w4: "\<exists>st2. codex_getToken (Suc 0) cw_down cx_store_single
               = Some (Failed RefreshRequestFailed, st2)
        \<and> cx_file st2 = [cx_acc_oauth]"
  proof -
    have ne: "[0 :: nat] \<noteq> []" by simp
    have st: "codex_needsRefresh (cw_now cw_down 0) cx_acc_oauth"
      using w1 by (simp add: cw_late_def cw_down_def)
    have cannot: "\<not> (\<exists>r. codex_refreshedBy cw_down 0 cx_acc_oauth r)"
      by (simp add: codex_refreshedBy_def cw_late_def cw_down_def)
    from down[THEN c2, THEN c2, THEN c2, THEN c2, THEN conjunct1, rule_format, OF conjI[OF ne st],
        THEN c2, THEN c2, THEN conjunct1, rule_format, OF cannot]
    obtain err st2 where
      rf: "codex_refreshToken cw_down 0 (cx_store_single\<lparr>cx_currentIndex := 0 + 1\<rparr>) 0
             = (Inl err, st2)"
      and f: "cx_file st2 = cx_file cx_store_single"
      and g: "codex_getToken (Suc 0) cw_down cx_store_single =
                (if 1 < length [0 :: nat] then codex_getToken 0 cw_down st2
                 else Some (Failed err, st2))"
      by blast
    have "fst (codex_refreshToken cw_down 0 (cx_store_single\<lparr>cx_currentIndex := 0 + 1\<rparr>) 0)
            = Inl RefreshRequestFailed"
      by (simp add: codex_refreshToken_def Let_def cx_store_single_def cx_acc_oauth_def
          AUTH_TYPE_API_KEY_def cw_down_def cw_late_def)
    then have "err = RefreshRequestFailed" using rf by simp
    moreover have "cx_file st2 = [cx_acc_oauth]" using f by (simp add: cx_store_single_def)
    ultimately show ?thesis using g by simp
  qed
  have w5: "codex_getToken (Suc 0) cw_early cx_store
      = Some (Token cx_acc_oauth, cx_store\<lparr>cx_currentIndex := 1\<rparr>)"
  proof -
    have ne: "[1 :: nat, 2] \<noteq> []" by simp
    have "\<not> codex_needsRefresh (Finite 0) cx_acc_oauth"
      unfolding early[THEN conjunct1]
      by (simp add: cx_acc_oauth_def ten)
    then have fr: "\<not> codex_needsRefresh (cw_now cw_early 0) cx_acc_oauth"
      by (simp add: cw_early_def cw_late_def)
    from early[THEN c2, THEN c2, THEN c2, THEN c2, THEN c2, THEN conjunct1, rule_format,
        OF conjI[OF ne fr]]
    show ?thesis by simp
  qed
  have w6: "cx_acc_oauth \<in> set (cx_accounts (cx_store\<lparr>cx_currentIndex := 1\<rparr>))"
    using early[THEN c2, THEN c2, THEN c2, THEN c2, THEN c2, THEN c2, THEN conjunct1, rule_format,
        OF w5]
    by blast
  have rq: "kiro_refreshRequest kr_acc_social =
      \<lparr>rq_url = ''https://prod.us-east-1.auth.desktop.kiro.dev/refreshToken'',
       rq_refreshToken = ''rt1'', rq_client = None\<rparr>"
    by (simp add: kiro_refreshRequest_def kr_acc_social_def DEFAULT_REGION_def AUTH_METHOD_SOCIAL_def
        Let_def replaceRegion_def)
  have iso: "toISOInstant (Finite 4100100) = Some (Finite 4100100)"
    by (simp add: toISOInstant_def)
  have w7: "\<exists>r st'. kiro_getToken (Suc 0) kw_late kr_store = Some (Token r, st')
        \<and> accessToken r = ''at-new''
        \<and> expiresAt r = Instant (Finite 4100100)
        \<and> kr_accounts st' = (kr_accounts kr_store)[1 := r]
        \<and> kr_file st' = kr_accounts st'
        \<and> kr_posted st' = [\<lparr>rq_url = ''https://prod.us-east-1.auth.desktop.kiro.dev/refreshToken'',
                             rq_refreshToken = ''rt1'', rq_client = None\<rparr>]"
  proof -
    have ne: "[1 :: nat, 2] \<noteq> []" by simp
    have st: "kiro_isExpired (kw_now kw_late 0) kr_acc_social"
      using kexp by (simp add: kw_late_def)
    have can: "\<exists>r. kiro_refreshedBy kw_late 0 kr_acc_social r"
      by (rule exI[where x="kr_acc_social\<lparr>accessToken := ''at-new'',
                                           expiresAt := Instant (Finite 4100100)\<rparr>"])
        (simp add: kiro_refreshedBy_def kw_late_def expiresInOrDefault_def iso,
         simp add: kr_acc_social_def)
    from late[THEN c2, THEN c2, THEN c2, THEN c2, THEN c2, THEN c2, THEN c2, THEN conjunct1,
        rule_format, OF conjI[OF ne st], THEN c2, THEN conjunct1, rule_format, OF can]
    obtain r st' where g: "kiro_getToken (Suc 0) kw_late kr_store = Some (Token r, st')"
      and g1: "kiro_refreshedBy kw_late 0 kr_acc_social r"
      and g4: "kr_accounts st' = (kr_accounts kr_store)[1 := r]"
      and g5: "kr_file st' = kr_accounts st'"
      and g6: "kr_posted st' = kr_posted kr_store @ [kiro_refreshRequest kr_acc_social]"
      by blast
    have "accessToken r = ''at-new''" "expiresAt r = Instant (Finite 4100100)"
      using g1 by (simp_all add: kiro_refreshedBy_def kw_late_def expiresInOrDefault_def iso)
    moreover have "kr_posted st' =
        [\<lparr>rq_url = ''https://prod.us-east-1.auth.desktop.kiro.dev/refreshToken'',
          rq_refreshToken = ''rt1'', rq_client = None\<rparr>]"
      using g6 by (simp add: rq kr_store_def)
    ultimately show ?thesis using g g4 g5 by blast
  qed
  have w8: "\<exists>st2. kiro_getToken (Suc 0) kw_down kr_store_single
               = Some (Failed RefreshRequestFailed, st2)
        \<and> kr_file st2 = [kr_acc_social]"
  proof -
    have ne: "[0 :: nat] \<noteq> []" by simp
    have st: "kiro_isExpired (kw_now kw_down 0) kr_acc_social"
      using kexp by (simp add: kw_late_def kw_down_def)
    have cannot: "\<not> (\<exists>r. kiro_refreshedBy kw_down 0 kr_acc_social r)"
      by (simp add: kiro_refreshedBy_def kw_late_def kw_down_def)
    from down[THEN c2, THEN c2, THEN c2, THEN c2, THEN c2, THEN c2, THEN c2, THEN conjunct1,
        rule_format, OF conjI[OF ne st], THEN c2, THEN c2, THEN conjunct1, rule_format, OF cannot]
    obtain err st2 where
      rf: "kiro_refreshToken kw_down 0 (kr_store_single\<lparr>kr_currentIndex := 0 + 1\<rparr>) 0
             = (Inl err, st2)"
      and f: "kr_file st2 = kr_file kr_store_single"
      and g: "kiro_getToken (Suc 0) kw_down kr_store_single =
                (if 1 < length [0 :: nat] then kiro_getToken 0 kw_down st2
                 else Some (Failed err, st2))"
      by blast
    have "fst (kiro_refreshToken kw_down 0 (kr_store_single\<lparr>kr_currentIndex := 0 + 1\<rparr>) 0)
            = Inl RefreshRequestFailed"
      by (simp add: kiro_refreshToken_def Let_def kr_store_single_def kr_acc_social_def
          kw_down_def kw_late_def)
    then have "err = RefreshRequestFailed" using rf by simp
    moreover have "kr_file st2 = [kr_acc_social]" using f by (simp add: kr_store_single_def)
    ultimately show ?thesis using g by simp
  qed
  have w9: "kiro_getToken (Suc 0) kw_early kr_store
      = Some (Token kr_acc_social, kr_store\<lparr>kr_currentIndex := 1\<rparr>)"
  proof -
    have ne: "[1 :: nat, 2] \<noteq> []" by simp
    have "\<not> kiro_isExpired (Finite 0) kr_acc_social"
      unfolding early[THEN c2, THEN conjunct1]
      by (simp add: kr_acc_social_def ten)
    then have fr: "\<not> kiro_isExpired (kw_now kw_early 0) kr_acc_social"
      by (simp add: kw_early_def kw_late_def)
    from early[THEN c2, THEN c2, THEN c2, THEN c2, THEN c2, THEN c2, THEN c2, THEN c2,
        THEN conjunct1, rule_format, OF conjI[OF ne fr]]
    show ?thesis by simp
  qed
  have w10: "spec_getToken (Suc 0) sw_late sp_store
      = Some (Token (sp_acc\<lparr>sa_accessToken := ''at-new'', sa_expiresAt := Some (Finite 4100100)\<rparr>),
              \<lparr>sm_accounts = [sp_acc\<lparr>sa_accessToken := ''at-new'',
                                       sa_expiresAt := Some (Finite 4100100)\<rparr>],
               sm_currentIndex = 1,
               sm_file = [sp_acc\<lparr>sa_accessToken := ''at-new'',
                                   sa_expiresAt := Some (Finite 4100100)\<rparr>]\<rparr>)"
  proof -
    have ne: "[0 :: nat] \<noteq> []" by simp
    have st: "spec_isExpired sw_late (sw_now sw_late 0) sp_acc"
      using sexp by (simp add: sw_late_def)
    have rf: "sw_refresh sw_late 0 sp_acc
        = Some (sp_acc\<lparr>sa_accessToken := ''at-new'', sa_expiresAt := Some (Finite 4100100)\<rparr>)"
      by (simp add: sw_late_def)
    from late[THEN c2, THEN c2, THEN c2, THEN c2, THEN c2, THEN c2, THEN c2, THEN c2, THEN c2,
        THEN c2, THEN conjunct1, rule_format, OF conjI[OF ne st], THEN conjunct1, rule_format,
        OF rf]
    show ?thesis by (simp add: sp_store_def)
  qed
  have w11: "spec_getToken (Suc 0) sw_down sp_store
      = Some (Failed RefreshRequestFailed, sp_store\<lparr>sm_currentIndex := 1\<rparr>)"
  proof -
    have ne: "[0 :: nat] \<noteq> []" by simp
    have st: "spec_isExpired sw_down (sw_now sw_down 0) sp_acc"
      using sexp1 by (simp add: sw_late_def sw_down_def)
    have rf: "sw_refresh sw_down 0 sp_acc = None"
      by (simp add: sw_down_def)
    from down[THEN c2, THEN c2, THEN c2, THEN c2, THEN c2, THEN c2, THEN c2, THEN c2, THEN c2,
        THEN c2, THEN conjunct1, rule_format, OF conjI[OF ne st], THEN c2, rule_format, OF rf]
    show ?thesis by simp
  qed
  have w12: "spec_getToken (Suc 0) (sw_late\<lparr>sw_now := (\<lambda>k. Finite 0)\<rparr>) sp_store
      = Some (Token sp_acc, sp_store\<lparr>sm_currentIndex := 1\<rparr>)"
  proof -
    have ne: "[0 :: nat] \<noteq> []" by simp
    have "\<not> spec_isExpired (sw_late\<lparr>sw_now := (\<lambda>k. Finite 0)\<rparr>) (Finite 0) sp_acc"
      unfolding early[THEN c2, THEN c2, THEN conjunct1]
      by (simp add: sp_acc_def sw_late_def ten)
    then have fr: "\<not> spec_isExpired (sw_late\<lparr>sw_now := (\<lambda>k. Finite 0)\<rparr>)
                      (sw_now (sw_late\<lparr>sw_now := (\<lambda>k. Finite 0)\<rparr>) 0) sp_acc"
      by simp
    from early[THEN c2, THEN c2, THEN c2, THEN c2, THEN c2, THEN c2, THEN c2, THEN c2, THEN c2,
        THEN c2, THEN c2, THEN conjunct1, rule_format, OF conjI[OF ne fr]]
    show ?thesis by simp
  qed
  from w1 w2 w3 w4 w5 w6 w7 w8 w9 w10 w11 w12 show ?thesis by (intro conjI)
qed

text \<open>
  C5. For a Codex or a Kiro store whose enabled accounts (in the order of the accounts
  file) are \<open>N \<ge> 1\<close> accounts that need no refresh at any of the calls: \<open>M\<close> calls of
  \<open>getToken\<close> one after the other return, at call \<open>j\<close>, the enabled account at index
  \<open>(currentIndex + j) mod N\<close>, and leave the store unchanged but for \<open>currentIndex\<close>,
  which has grown by \<open>M\<close>. When \<open>M\<close> is a multiple of \<open>N\<close> the results are \<open>M/N\<close>
  repetitions of the enabled accounts rotated by \<open>currentIndex\<close>, so every account is
  returned \<open>M/N\<close> times for each place it has among the enabled accounts. The enabled
  accounts are exactly the accounts whose \<open>enable\<close> is not \<open>false\<close>: a disabled account
  is never returned and takes no index.
\<close>

theorem C5_round_robin:
  assumes "ea = enabledAccounts cx_enable (cx_accounts st)" "ea \<noteq> []"
    and "\<forall>k. \<forall>a \<in> set ea. \<not> codex_needsRefresh (cw_now w k) a"
    and "kea = enabledAccounts kr_enable (kr_accounts kst)" "kea \<noteq> []"
    and "\<forall>k. \<forall>a \<in> set kea. \<not> kiro_isExpired (kw_now kw k) a"
    and "0 < fuel"
  shows "codex_getTokens fuel w st M =
           Some (map (\<lambda>j. Token (ea ! ((cx_currentIndex st + j) mod length ea))) [0..<M],
                 st\<lparr>cx_currentIndex := cx_currentIndex st + M\<rparr>)
    \<and> kiro_getTokens fuel kw kst M =
           Some (map (\<lambda>j. Token (kea ! ((kr_currentIndex kst + j) mod length kea))) [0..<M],
                 kst\<lparr>kr_currentIndex := kr_currentIndex kst + M\<rparr>)
    \<and> (length ea dvd M \<longrightarrow>
          map (\<lambda>j. Token (ea ! ((cx_currentIndex st + j) mod length ea))) [0..<M]
            = map Token (concat (replicate (M div length ea) (rotate (cx_currentIndex st) ea)))
        \<and> (\<forall>a. count_list (map (\<lambda>j. Token (ea ! ((cx_currentIndex st + j) mod length ea))) [0..<M])
                  (Token a) = (M div length ea) * count_list ea a))
    \<and> (length kea dvd M \<longrightarrow>
          map (\<lambda>j. Token (kea ! ((kr_currentIndex kst + j) mod length kea))) [0..<M]
            = map Token (concat (replicate (M div length kea) (rotate (kr_currentIndex kst) kea)))
        \<and> (\<forall>a. count_list (map (\<lambda>j. Token (kea ! ((kr_currentIndex kst + j) mod length kea))) [0..<M])
                  (Token a) = (M div length kea) * count_list kea a))
    \<and> set ea = {a \<in> set (cx_accounts st). cx_enable a \<noteq> Some False}
    \<and> set kea = {a \<in> set (kr_accounts kst). kr_enable a \<noteq> Some False}"
proof -
  note c = codex_round_robin[OF assms(1,2,3,7)]
  note kr = kiro_round_robin[OF assms(4,5,6,7)]
  have d: "length ea dvd M \<longrightarrow>
          map (\<lambda>j. Token (ea ! ((cx_currentIndex st + j) mod length ea))) [0..<M]
            = map Token (concat (replicate (M div length ea) (rotate (cx_currentIndex st) ea)))
        \<and> (\<forall>a. count_list (map (\<lambda>j. Token (ea ! ((cx_currentIndex st + j) mod length ea))) [0..<M])
                  (Token a) = (M div length ea) * count_list ea a)"
    using c(2)[where M=M] c(3)[where M=M] by blast
  have kd: "length kea dvd M \<longrightarrow>
          map (\<lambda>j. Token (kea ! ((kr_currentIndex kst + j) mod length kea))) [0..<M]
            = map Token (concat (replicate (M div length kea) (rotate (kr_currentIndex kst) kea)))
        \<and> (\<forall>a. count_list (map (\<lambda>j. Token (kea ! ((kr_currentIndex kst + j) mod length kea))) [0..<M])
                  (Token a) = (M div length kea) * count_list kea a)"
    using kr(2)[where M=M] kr(3)[where M=M] by blast
  from c(1)[where M=M] kr(1)[where M=M] d kd c(4) kr(4)
  show ?thesis by (intro conjI)
qed

theorem C5_round_robin_witness:
  "enabledAccounts cx_enable (cx_accounts cx_store) = [cx_acc_oauth, cx_acc_key]
 \<and> codex_getTokens 1 cw_early cx_store 4 =
     Some ([Token cx_acc_oauth, Token cx_acc_key, Token cx_acc_oauth, Token cx_acc_key],
           cx_store\<lparr>cx_currentIndex := 4\<rparr>)
 \<and> enabledAccounts kr_enable (kr_accounts kr_store) = [kr_acc_social, kr_acc_plain]
 \<and> kiro_getTokens 1 kw_early kr_store 4 =
     Some ([Token kr_acc_social, Token kr_acc_plain, Token kr_acc_social, Token kr_acc_plain],
           kr_store\<lparr>kr_currentIndex := 4\<rparr>)"
proof -
  have ea: "enabledAccounts cx_enable (cx_accounts cx_store) = [cx_acc_oauth, cx_acc_key]"
    by (simp add: enabledAccounts_def store_samples)
  have kea: "enabledAccounts kr_enable (kr_accounts kr_store) = [kr_acc_social, kr_acc_plain]"
    by (simp add: enabledAccounts_def store_samples)
  have h2: "[cx_acc_oauth, cx_acc_key] \<noteq> []" and h5: "[kr_acc_social, kr_acc_plain] \<noteq> []"
    by simp_all
  have h3: "\<forall>k. \<forall>a \<in> set [cx_acc_oauth, cx_acc_key]. \<not> codex_needsRefresh (cw_now cw_early k) a"
    by (simp add: codex_needsRefresh_def codex_isExpired_def store_samples AUTH_TYPE_OAUTH_def
        AUTH_TYPE_API_KEY_def TOKEN_REFRESH_BUFFER_def js_sub_def)
  have h6: "\<forall>k. \<forall>a \<in> set [kr_acc_social, kr_acc_plain]. \<not> kiro_isExpired (kw_now kw_early k) a"
    by (simp add: kiro_isExpired_def store_samples js_sub_def)
  have h7: "0 < (1 :: nat)" by simp
  note inst = C5_round_robin[OF ea[symmetric] h2 h3 kea[symmetric] h5 h6 h7, of 4]
  have i: "cx_currentIndex cx_store = 0" "kr_currentIndex kr_store = 0"
    by (simp_all add: cx_store_def kr_store_def)
  have four: "[0..<4] = [0, 1, 2, 3]" by (simp add: upt_rec)
  have m: "length [x, y] = 2" for x y :: 'a
    by simp
  have c: "codex_getTokens 1 cw_early cx_store 4 =
     Some ([Token cx_acc_oauth, Token cx_acc_key, Token cx_acc_oauth, Token cx_acc_key],
           cx_store\<lparr>cx_currentIndex := 4\<rparr>)"
    unfolding inst[THEN conjunct1] i four by (simp add: m del: length_Cons list.size)
  have kc: "kiro_getTokens 1 kw_early kr_store 4 =
     Some ([Token kr_acc_social, Token kr_acc_plain, Token kr_acc_social, Token kr_acc_plain],
           kr_store\<lparr>kr_currentIndex := 4\<rparr>)"
    unfolding inst[THEN conjunct2, THEN conjunct1] i four by (simp add: m del: length_Cons list.size)
  from ea c kea kc show ?thesis by (intro conjI)
qed

section \<open>The Claude stream\<close>

lemma discipline_toolCallEvents:
  "discipline i None (fst (toolCallEvents j i tcs) @ rest)
     = discipline (snd (toolCallEvents j i tcs)) None rest"
proof (induction tcs arbitrary: i)
  case Nil then show ?case by simp
next
  case (Cons tc tcs)
  show ?case
  proof (cases "JSON_parse j (tc_arguments tc)")
    case None then show ?thesis using Cons.IH[of i] by simp
  next
    case (Some input)
    obtain evs i' where t: "toolCallEvents j (Suc i) tcs = (evs, i')"
      by (cases "toolCallEvents j (Suc i) tcs")
    show ?thesis using Cons.IH[of "Suc i"] by (simp add: Some t)
  qed
qed

lemma blockType_cases:
  obtains "currentBlockType s = None" | "currentBlockType s = Some Thinking"
    | "currentBlockType s = Some Text"
proof (cases "currentBlockType s")
  case None then show ?thesis using that by simp
next
  case (Some b) then show ?thesis using that by (cases b) simp_all
qed

lemma relay_Cons:
  "relay j s (d # ds) = (fst (onData j s d) @ fst (relay j (snd (onData j s d)) ds),
                         snd (relay j (snd (onData j s d)) ds))"
  by (simp split: prod.splits)

lemma onData_usage:
  "fst (onData j s (UsageEvent u)) = []"
  "nextIndex (snd (onData j s (UsageEvent u))) = nextIndex s"
  "openBlock (snd (onData j s (UsageEvent u))) = openBlock s"
  "reasoningSent (snd (onData j s (UsageEvent u))) = reasoningSent s"
  "currentBlockType (snd (onData j s (UsageEvent u))) = currentBlockType s"
  by (simp_all add: nextIndex_def openBlock_def)

lemma onData_tools:
  "discipline (nextIndex s) (openBlock s) (fst (onData j s (ToolCallsEvent tcs)) @ rest)
     = discipline (nextIndex (snd (onData j s (ToolCallsEvent tcs))))
         (openBlock (snd (onData j s (ToolCallsEvent tcs)))) rest"
  "reasoningSent (snd (onData j s (ToolCallsEvent tcs))) = reasoningSent s"
  "currentBlockType (snd (onData j s (ToolCallsEvent tcs))) = None"
proof -
  obtain evs i' where t: "toolCallEvents j (nextIndex s) tcs = (evs, i')"
    by (cases "toolCallEvents j (nextIndex s) tcs")
  have o: "onData j s (ToolCallsEvent tcs) =
      ((if currentBlockType s \<noteq> None then [ContentBlockStop (contentIndex s)] else []) @ evs,
       s\<lparr>hasToolCall := True, contentIndex := i', currentBlockType := None\<rparr>)"
    using t by (auto simp: Let_def nextIndex_def)
  have "discipline (nextIndex s) (openBlock s) (fst (onData j s (ToolCallsEvent tcs)) @ rest)
      = discipline (nextIndex s) None (evs @ rest)"
    by (simp add: o nextIndex_def openBlock_def del: onData.simps)
  also have "\<dots> = discipline i' None rest"
    using discipline_toolCallEvents[where i="nextIndex s" and j=j and tcs=tcs and rest=rest] t by simp
  finally show "discipline (nextIndex s) (openBlock s) (fst (onData j s (ToolCallsEvent tcs)) @ rest)
     = discipline (nextIndex (snd (onData j s (ToolCallsEvent tcs))))
         (openBlock (snd (onData j s (ToolCallsEvent tcs)))) rest"
    by (simp add: o nextIndex_def openBlock_def del: onData.simps)
  show "reasoningSent (snd (onData j s (ToolCallsEvent tcs))) = reasoningSent s"
    "currentBlockType (snd (onData j s (ToolCallsEvent tcs))) = None"
    by (simp_all add: o del: onData.simps)
qed

lemma onData_content:
  "discipline (nextIndex s) (openBlock s) (fst (onData j s (ContentEvent c)) @ rest)
     = discipline (nextIndex (snd (onData j s (ContentEvent c))))
         (openBlock (snd (onData j s (ContentEvent c)))) rest"
  "reasoningSent (snd (onData j s (ContentEvent c))) = reasoningSent s"
  "currentBlockType (snd (onData j s (ContentEvent c))) = Some Text"
proof -
  show "discipline (nextIndex s) (openBlock s) (fst (onData j s (ContentEvent c)) @ rest)
     = discipline (nextIndex (snd (onData j s (ContentEvent c))))
         (openBlock (snd (onData j s (ContentEvent c)))) rest"
    by (cases s rule: blockType_cases) (simp_all add: nextIndex_def openBlock_def Let_def)
  show "reasoningSent (snd (onData j s (ContentEvent c))) = reasoningSent s"
    by (cases s rule: blockType_cases) (simp_all add: Let_def)
  show "currentBlockType (snd (onData j s (ContentEvent c))) = Some Text"
    by (cases s rule: blockType_cases) (simp_all add: Let_def)
qed

lemma onData_reasoning_sent:
  assumes "reasoningSent s"
  shows "discipline (nextIndex s) (openBlock s) (fst (onData j s (ReasoningEvent r sg)) @ rest)
     = discipline (nextIndex (snd (onData j s (ReasoningEvent r sg))))
         (openBlock (snd (onData j s (ReasoningEvent r sg)))) rest"
    and "reasoningSent (snd (onData j s (ReasoningEvent r sg)))"
  using assms by (simp_all add: Let_def)

lemma onData_reasoning_first:
  assumes "\<not> reasoningSent s"
  shows "discipline (nextIndex s) (openBlock s) (fst (onData j s (ReasoningEvent r sg)) @ rest)
     = (currentBlockType s = None
        \<and> discipline (nextIndex (snd (onData j s (ReasoningEvent r sg))))
            (openBlock (snd (onData j s (ReasoningEvent r sg)))) rest)"
    and "reasoningSent (snd (onData j s (ReasoningEvent r sg)))"
  using assms by (simp_all add: Let_def nextIndex_def openBlock_def)

lemma relay_sent:
  "reasoningSent s \<Longrightarrow>
     discipline (nextIndex s) (openBlock s) (fst (relay j s ds) @ rest)
       = discipline (nextIndex (snd (relay j s ds))) (openBlock (snd (relay j s ds))) rest"
proof (induction ds arbitrary: s)
  case Nil then show ?case by simp
next
  case (Cons d ds)
  let ?s1 = "snd (onData j s d)"
  let ?rest = "fst (relay j ?s1 ds) @ rest"
  have step: "discipline (nextIndex s) (openBlock s) (fst (onData j s d) @ ?rest)
        = discipline (nextIndex ?s1) (openBlock ?s1) ?rest \<and> reasoningSent ?s1"
  proof (cases d)
    case (UsageEvent u) then show ?thesis using Cons.prems by (simp add: onData_usage del: onData.simps)
  next
    case (ReasoningEvent r sg)
    then show ?thesis
      using onData_reasoning_sent(1)[OF Cons.prems, where j=j and r=r and sg=sg and rest="?rest"]
        onData_reasoning_sent(2)[OF Cons.prems, where j=j and r=r and sg=sg]
      by (simp del: onData.simps)
  next
    case (ToolCallsEvent tcs)
    then show ?thesis
      using onData_tools(1)[where s=s and j=j and tcs=tcs and rest="?rest"] onData_tools(2)[where s=s and j=j and tcs=tcs] Cons.prems
      by (simp del: onData.simps)
  next
    case (ContentEvent c)
    then show ?thesis
      using onData_content(1)[where s=s and j=j and c=c and rest="?rest"] onData_content(2)[where s=s and j=j and c=c] Cons.prems
      by (simp del: onData.simps)
  qed
  then have "discipline (nextIndex ?s1) (openBlock ?s1) ?rest
      = discipline (nextIndex (snd (relay j ?s1 ds))) (openBlock (snd (relay j ?s1 ds))) rest"
    using Cons.IH[of ?s1] by simp
  with step show ?case unfolding relay_Cons fst_conv snd_conv append_assoc by simp
qed

lemma relay_unsent:
  "\<not> reasoningSent s \<Longrightarrow> currentBlockType s \<noteq> Some Thinking \<Longrightarrow>
     discipline (nextIndex s) (openBlock s) (fst (relay j s ds) @ rest)
       = (\<not> lateReasoning (currentBlockType s = Some Text) ds
          \<and> discipline (nextIndex (snd (relay j s ds))) (openBlock (snd (relay j s ds))) rest)"
proof (induction ds arbitrary: s)
  case Nil then show ?case by simp
next
  case (Cons d ds)
  let ?s1 = "snd (onData j s d)"
  let ?rest = "fst (relay j ?s1 ds) @ rest"
  let ?end = "discipline (nextIndex (snd (relay j ?s1 ds))) (openBlock (snd (relay j ?s1 ds))) rest"
  have goal: "discipline (nextIndex s) (openBlock s) (fst (onData j s d) @ ?rest)
        = (\<not> lateReasoning (currentBlockType s = Some Text) (d # ds) \<and> ?end)"
  proof (cases d)
    case (UsageEvent u)
    have "discipline (nextIndex ?s1) (openBlock ?s1) ?rest
        = (\<not> lateReasoning (currentBlockType ?s1 = Some Text) ds \<and> ?end)"
      using Cons.prems by (intro Cons.IH) (simp_all only: UsageEvent onData_usage not_False_eq_True)
    then show ?thesis by (simp only: UsageEvent onData_usage append_Nil lateReasoning.simps)
  next
    case (ReasoningEvent r sg)
    have sent: "reasoningSent ?s1"
      using onData_reasoning_first(2)[OF Cons.prems(1), where j=j and r=r and sg=sg] by (simp only: ReasoningEvent)
    have "discipline (nextIndex ?s1) (openBlock ?s1) ?rest = ?end"
      using sent by (rule relay_sent)
    moreover have "(currentBlockType s = None) = (currentBlockType s \<noteq> Some Text)"
      using Cons.prems(2) by (cases s rule: blockType_cases) simp_all
    ultimately show ?thesis
      using onData_reasoning_first(1)[OF Cons.prems(1), where j=j and r=r and sg=sg and rest="?rest"]
      by (simp only: ReasoningEvent lateReasoning.simps)
  next
    case (ToolCallsEvent tcs)
    have "discipline (nextIndex ?s1) (openBlock ?s1) ?rest
        = (\<not> lateReasoning (currentBlockType ?s1 = Some Text) ds \<and> ?end)"
      using Cons.prems by (intro Cons.IH) (simp_all add: ToolCallsEvent onData_tools del: onData.simps)
    then show ?thesis
      using onData_tools(1)[where s=s and j=j and tcs=tcs and rest="?rest"]
      by (simp add: ToolCallsEvent onData_tools(3) del: onData.simps)
  next
    case (ContentEvent c)
    have "discipline (nextIndex ?s1) (openBlock ?s1) ?rest
        = (\<not> lateReasoning (currentBlockType ?s1 = Some Text) ds \<and> ?end)"
      using Cons.prems by (intro Cons.IH) (simp_all add: ContentEvent onData_content del: onData.simps)
    then show ?thesis
      using onData_content(1)[where s=s and j=j and c=c and rest="?rest"]
      by (simp add: ContentEvent onData_content(3) del: onData.simps)
  qed
  show ?case unfolding relay_Cons fst_conv snd_conv append_assoc by (rule goal)
qed

lemma claudeStream_discipline:
  "discipline 0 None (claudeStream j msgId mdl upstream) = (\<not> lateReasoning False upstream)"
proof -
  obtain evs s where r: "relay j initialStream upstream = (evs, s)"
    by (cases "relay j initialStream upstream")
  define rest where "rest = (if currentBlockType s \<noteq> None then [ContentBlockStop (contentIndex s)] else []) @
          [MessageDelta (if hasToolCall s then ''tool_use'' else ''end_turn'')
             (case usageData s of Some completion_tokens \<Rightarrow> completion_tokens | None \<Rightarrow> Finite 0),
           MessageStop]"
  have i0: "nextIndex initialStream = 0" "openBlock initialStream = None"
    "(currentBlockType initialStream = Some Text) = False"
    by (simp_all add: initialStream_def nextIndex_def openBlock_def)
  have p: "\<not> reasoningSent initialStream" "currentBlockType initialStream \<noteq> Some Thinking"
    by (simp_all add: initialStream_def)
  note m = relay_unsent[OF p, where j=j and ds=upstream and rest=rest, unfolded i0 r fst_conv snd_conv]
  have e: "discipline (nextIndex s) (openBlock s) rest"
    by (simp add: rest_def nextIndex_def openBlock_def)
  have c: "claudeStream j msgId mdl upstream = MessageStart msgId mdl # evs @ rest"
    by (simp add: claudeStream_def r rest_def)
  show ?thesis unfolding c discipline.simps m using e by simp
qed


lemma startedTwice_toolCallEvents:
  "startedTwice [] (fst (toolCallEvents j i tcs) @ rest) = startedTwice [] rest"
proof (induction tcs arbitrary: i)
  case Nil then show ?case by simp
next
  case (Cons tc tcs)
  show ?case
  proof (cases "JSON_parse j (tc_arguments tc)")
    case None then show ?thesis using Cons.IH[of i] by simp
  next
    case (Some input)
    obtain evs i' where t: "toolCallEvents j (Suc i) tcs = (evs, i')"
      by (cases "toolCallEvents j (Suc i) tcs")
    show ?thesis using Cons.IH[of "Suc i"] by (simp add: Some t)
  qed
qed

lemma twice_usage:
  "openList (snd (onData j s (UsageEvent u))) = openList s"
  by (simp add: openList_def)

lemma twice_tools:
  "startedTwice (openList s) (fst (onData j s (ToolCallsEvent tcs)) @ rest)
     = startedTwice (openList (snd (onData j s (ToolCallsEvent tcs)))) rest"
proof -
  obtain evs i' where t: "toolCallEvents j (nextIndex s) tcs = (evs, i')"
    by (cases "toolCallEvents j (nextIndex s) tcs")
  have o: "onData j s (ToolCallsEvent tcs) =
      ((if currentBlockType s \<noteq> None then [ContentBlockStop (contentIndex s)] else []) @ evs,
       s\<lparr>hasToolCall := True, contentIndex := i', currentBlockType := None\<rparr>)"
    using t by (auto simp: Let_def nextIndex_def)
  have "startedTwice (openList s) (fst (onData j s (ToolCallsEvent tcs)) @ rest)
      = startedTwice [] (evs @ rest)"
    by (simp add: o openList_def del: onData.simps)
  also have "\<dots> = startedTwice [] rest"
    using startedTwice_toolCallEvents[where i="nextIndex s" and j=j and tcs=tcs and rest=rest] t
    by simp
  finally show ?thesis by (simp add: o openList_def del: onData.simps)
qed

lemma twice_content:
  "startedTwice (openList s) (fst (onData j s (ContentEvent c)) @ rest)
     = startedTwice (openList (snd (onData j s (ContentEvent c)))) rest"
  by (cases s rule: blockType_cases) (simp_all add: openList_def Let_def)

lemma twice_reasoning_sent:
  assumes "reasoningSent s"
  shows "startedTwice (openList s) (fst (onData j s (ReasoningEvent r sg)) @ rest)
     = startedTwice (openList (snd (onData j s (ReasoningEvent r sg)))) rest"
  using assms by (simp add: Let_def)

lemma twice_reasoning_first:
  assumes "\<not> reasoningSent s"
  shows "startedTwice (openList s) (fst (onData j s (ReasoningEvent r sg)) @ rest)
     = (currentBlockType s \<noteq> None
        \<or> startedTwice (openList (snd (onData j s (ReasoningEvent r sg)))) rest)"
  using assms by (simp add: Let_def openList_def)

lemma relay_twice_sent:
  "reasoningSent s \<Longrightarrow>
     startedTwice (openList s) (fst (relay j s ds) @ rest)
       = startedTwice (openList (snd (relay j s ds))) rest"
proof (induction ds arbitrary: s)
  case Nil then show ?case by simp
next
  case (Cons d ds)
  let ?s1 = "snd (onData j s d)"
  let ?rest = "fst (relay j ?s1 ds) @ rest"
  have step: "startedTwice (openList s) (fst (onData j s d) @ ?rest)
        = startedTwice (openList ?s1) ?rest \<and> reasoningSent ?s1"
  proof (cases d)
    case (UsageEvent u)
    then show ?thesis using Cons.prems by (simp add: onData_usage twice_usage del: onData.simps)
  next
    case (ReasoningEvent r sg)
    then show ?thesis
      using twice_reasoning_sent[OF Cons.prems, where j=j and r=r and sg=sg and rest="?rest"]
        onData_reasoning_sent(2)[OF Cons.prems, where j=j and r=r and sg=sg]
      by (simp del: onData.simps)
  next
    case (ToolCallsEvent tcs)
    then show ?thesis
      using twice_tools[where s=s and j=j and tcs=tcs and rest="?rest"]
        onData_tools(2)[where s=s and j=j and tcs=tcs] Cons.prems
      by (simp del: onData.simps)
  next
    case (ContentEvent c)
    then show ?thesis
      using twice_content[where s=s and j=j and c=c and rest="?rest"]
        onData_content(2)[where s=s and j=j and c=c] Cons.prems
      by (simp del: onData.simps)
  qed
  then have "startedTwice (openList ?s1) ?rest = startedTwice (openList (snd (relay j ?s1 ds))) rest"
    using Cons.IH[of ?s1] by simp
  with step show ?case unfolding relay_Cons fst_conv snd_conv append_assoc by simp
qed

lemma relay_twice_unsent:
  "\<not> reasoningSent s \<Longrightarrow> currentBlockType s \<noteq> Some Thinking \<Longrightarrow>
     startedTwice (openList s) (fst (relay j s ds) @ rest)
       = (lateReasoning (currentBlockType s = Some Text) ds
          \<or> startedTwice (openList (snd (relay j s ds))) rest)"
proof (induction ds arbitrary: s)
  case Nil then show ?case by simp
next
  case (Cons d ds)
  let ?s1 = "snd (onData j s d)"
  let ?rest = "fst (relay j ?s1 ds) @ rest"
  let ?end = "startedTwice (openList (snd (relay j ?s1 ds))) rest"
  have goal: "startedTwice (openList s) (fst (onData j s d) @ ?rest)
        = (lateReasoning (currentBlockType s = Some Text) (d # ds) \<or> ?end)"
  proof (cases d)
    case (UsageEvent u)
    have "startedTwice (openList ?s1) ?rest
        = (lateReasoning (currentBlockType ?s1 = Some Text) ds \<or> ?end)"
      using Cons.prems by (intro Cons.IH) (simp_all only: UsageEvent onData_usage not_False_eq_True)
    then show ?thesis
      by (simp only: UsageEvent onData_usage twice_usage append_Nil lateReasoning.simps)
  next
    case (ReasoningEvent r sg)
    have sent: "reasoningSent ?s1"
      using onData_reasoning_first(2)[OF Cons.prems(1), where j=j and r=r and sg=sg]
      by (simp only: ReasoningEvent)
    have "startedTwice (openList ?s1) ?rest = ?end"
      using sent by (rule relay_twice_sent)
    moreover have "(currentBlockType s \<noteq> None) = (currentBlockType s = Some Text)"
      using Cons.prems(2) by (cases s rule: blockType_cases) simp_all
    ultimately show ?thesis
      using twice_reasoning_first[OF Cons.prems(1), where j=j and r=r and sg=sg and rest="?rest"]
      by (simp only: ReasoningEvent lateReasoning.simps)
  next
    case (ToolCallsEvent tcs)
    have "startedTwice (openList ?s1) ?rest
        = (lateReasoning (currentBlockType ?s1 = Some Text) ds \<or> ?end)"
      using Cons.prems by (intro Cons.IH) (simp_all add: ToolCallsEvent onData_tools del: onData.simps)
    then show ?thesis
      using twice_tools[where s=s and j=j and tcs=tcs and rest="?rest"]
      by (simp add: ToolCallsEvent onData_tools(3) del: onData.simps)
  next
    case (ContentEvent c)
    have "startedTwice (openList ?s1) ?rest
        = (lateReasoning (currentBlockType ?s1 = Some Text) ds \<or> ?end)"
      using Cons.prems by (intro Cons.IH) (simp_all add: ContentEvent onData_content del: onData.simps)
    then show ?thesis
      using twice_content[where s=s and j=j and c=c and rest="?rest"]
      by (simp add: ContentEvent onData_content(3) del: onData.simps)
  qed
  show ?case unfolding relay_Cons fst_conv snd_conv append_assoc by (rule goal)
qed

lemma claudeStream_startedTwice:
  "startedTwice [] (claudeStream j msgId mdl upstream) = lateReasoning False upstream"
proof -
  obtain evs s where r: "relay j initialStream upstream = (evs, s)"
    by (cases "relay j initialStream upstream")
  define rest where "rest = (if currentBlockType s \<noteq> None then [ContentBlockStop (contentIndex s)] else []) @
          [MessageDelta (if hasToolCall s then ''tool_use'' else ''end_turn'')
             (case usageData s of Some completion_tokens \<Rightarrow> completion_tokens | None \<Rightarrow> Finite 0),
           MessageStop]"
  have i0: "openList initialStream = []" "(currentBlockType initialStream = Some Text) = False"
    by (simp_all add: initialStream_def openList_def)
  have p: "\<not> reasoningSent initialStream" "currentBlockType initialStream \<noteq> Some Thinking"
    by (simp_all add: initialStream_def)
  note m = relay_twice_unsent[OF p, where j=j and ds=upstream and rest=rest,
      unfolded i0 r fst_conv snd_conv]
  have e: "\<not> startedTwice (openList s) rest"
    by (simp add: rest_def openList_def)
  have c: "claudeStream j msgId mdl upstream = MessageStart msgId mdl # evs @ rest"
    by (simp add: claudeStream_def r rest_def)
  show ?thesis unfolding c startedTwice.simps m using e by simp
qed


text \<open>
  C7. For every upstream sequence, the stream written for it starts a block index a
  second time before that index is stopped exactly when the first reasoning delta of
  the sequence arrives while a text block is open; and exactly for the other sequences
  it keeps the whole discipline (indices 0, 1, 2, ... in order, a block opened only
  when none is open, every stop closing the open block, nothing left open). The
  callback's reasoning branch opens the thinking block without closing an open text
  block: for the upstream sequence text \<open>a\<close>, reasoning \<open>b\<close> the stream has two
  \<open>content_block_start\<close> events of index 0 with no \<open>content_block_stop\<close> between them.
\<close>

theorem C7_block_discipline:
  "startedTwice [] (claudeStream j msgId mdl upstream) = lateReasoning False upstream
 \<and> discipline 0 None (claudeStream j msgId mdl upstream) = (\<not> lateReasoning False upstream)
 \<and> lateReasoning False [ContentEvent ''a'', ReasoningEvent ''b'' []]
 \<and> claudeStream j msgId mdl [ContentEvent ''a'', ReasoningEvent ''b'' []] =
     [MessageStart msgId mdl,
      ContentBlockStart 0 (TextBlock []),
      ContentBlockDelta 0 (TextDelta ''a''),
      ContentBlockStart 0 (ThinkingBlock [] None),
      ContentBlockDelta 0 (ThinkingDelta ''b'' None),
      ContentBlockStop 0,
      MessageDelta ''end_turn'' (Finite 0),
      MessageStop]"
proof (intro conjI)
  show "startedTwice [] (claudeStream j msgId mdl upstream) = lateReasoning False upstream"
    by (rule claudeStream_startedTwice)
  show "discipline 0 None (claudeStream j msgId mdl upstream) = (\<not> lateReasoning False upstream)"
    by (rule claudeStream_discipline)
  show "lateReasoning False [ContentEvent ''a'', ReasoningEvent ''b'' []]" by simp
  show "claudeStream j msgId mdl [ContentEvent ''a'', ReasoningEvent ''b'' []] =
     [MessageStart msgId mdl,
      ContentBlockStart 0 (TextBlock []),
      ContentBlockDelta 0 (TextDelta ''a''),
      ContentBlockStart 0 (ThinkingBlock [] None),
      ContentBlockDelta 0 (ThinkingDelta ''b'' None),
      ContentBlockStop 0,
      MessageDelta ''end_turn'' (Finite 0),
      MessageStop]"
    by (simp add: claudeStream_def initialStream_def Let_def passedSignature_def)
qed


subsection \<open>Tool calls whose arguments do not parse\<close>

lemma toolCallEvents_malformed:
  "JSON_parse j (tc_arguments tc) = None \<Longrightarrow>
     toolCallEvents j i (pre @ tc # post) = toolCallEvents j i (pre @ post)"
  by (induction pre arbitrary: i) (simp_all split: option.splits)

lemma relay_append:
  "relay j s (xs @ ys) =
     (fst (relay j s xs) @ fst (relay j (snd (relay j s xs)) ys), snd (relay j (snd (relay j s xs)) ys))"
  by (induction xs arbitrary: s) (simp_all split: prod.splits)

lemma onData_malformed:
  "JSON_parse j (tc_arguments tc) = None \<Longrightarrow>
     onData j s (ToolCallsEvent (pre @ tc # post)) = onData j s (ToolCallsEvent (pre @ post))"
  by (simp add: toolCallEvents_malformed)

lemma relay_malformed:
  assumes "JSON_parse j (tc_arguments tc) = None"
  shows "relay j s (before @ ToolCallsEvent (pre @ tc # post) # after)
       = relay j s (before @ ToolCallsEvent (pre @ post) # after)"
  unfolding relay_append relay_Cons onData_malformed[OF assms] ..


text \<open>
  C8, as stated, fails on the streaming path: a tool call whose arguments do not parse
  is left out of the stream, no \<open>tool_use\<close> block with empty input is written for it
  (the stop reason is still \<open>tool_use\<close>).
\<close>

theorem C8_malformed_arguments_counterexample:
  "JSON_parse json_two (tc_arguments tc_bad) = None
 \<and> claudeStream json_two ''msg'' ''m'' [ContentEvent ''hi'', ToolCallsEvent [tc_bad]] =
     [MessageStart ''msg'' ''m'',
      ContentBlockStart 0 (TextBlock []),
      ContentBlockDelta 0 (TextDelta ''hi''),
      ContentBlockStop 0,
      MessageDelta ''tool_use'' (Finite 0),
      MessageStop]"
  by (simp add: claudeStream_def initialStream_def Let_def json_two_def tc_bad_def)


text \<open>
  C8, amended. For a tool call whose arguments \<open>JSON.parse\<close> rejects: the response
  without streaming holds for it a \<open>tool_use\<close> block with its id and name, the empty
  object as input and no signature, after the blocks for what precedes it and before
  the blocks of the tool calls after it, the other fields of the response being what
  they are without it; the stream is the stream of the same upstream sequence with
  that tool call removed from its batch, so nothing is written for it and it takes no
  block index, and everything else is still written.
\<close>

theorem C8_malformed_arguments:
  assumes "JSON_parse j (tc_arguments tc) = None"
  shows "toolUseBlock j tc = ToolUseBlock (tc_id tc) (tc_name tc) (JObj []) None
    \<and> createClaudeResponse j ident mdl content reasoning sg (pre @ tc # post) stopReason usage =
        (createClaudeResponse j ident mdl content reasoning sg pre stopReason usage)
          \<lparr>cr_content :=
             cr_content (createClaudeResponse j ident mdl content reasoning sg pre stopReason usage)
             @ ToolUseBlock (tc_id tc) (tc_name tc) (JObj []) None # map (toolUseBlock j) post\<rparr>
    \<and> toolCallEvents j i (pre @ tc # post) = toolCallEvents j i (pre @ post)
    \<and> claudeStream j msgId mdl (before @ ToolCallsEvent (pre @ tc # post) # after)
        = claudeStream j msgId mdl (before @ ToolCallsEvent (pre @ post) # after)"
proof (intro conjI)
  show b: "toolUseBlock j tc = ToolUseBlock (tc_id tc) (tc_name tc) (JObj []) None"
    using assms by (simp add: toolUseBlock_def)
  show "createClaudeResponse j ident mdl content reasoning sg (pre @ tc # post) stopReason usage =
        (createClaudeResponse j ident mdl content reasoning sg pre stopReason usage)
          \<lparr>cr_content :=
             cr_content (createClaudeResponse j ident mdl content reasoning sg pre stopReason usage)
             @ ToolUseBlock (tc_id tc) (tc_name tc) (JObj []) None # map (toolUseBlock j) post\<rparr>"
    by (simp add: createClaudeResponse_def Let_def b)
  show "toolCallEvents j i (pre @ tc # post) = toolCallEvents j i (pre @ post)"
    using assms by (rule toolCallEvents_malformed)
  show "claudeStream j msgId mdl (before @ ToolCallsEvent (pre @ tc # post) # after)
        = claudeStream j msgId mdl (before @ ToolCallsEvent (pre @ post) # after)"
    unfolding claudeStream_def relay_malformed[OF assms] ..
qed


theorem C8_malformed_arguments_witness:
  "JSON_parse json_two (tc_arguments tc_bad) = None
 \<and> cr_content (createClaudeResponse json_two ''msg'' ''m'' ''hi'' [] [] [tc_good, tc_bad] ''tool_use'' None)
     = [TextBlock ''hi'', ToolUseBlock ''t1'' ''f'' (JObj []) None,
        ToolUseBlock ''t2'' ''g'' (JObj []) None]
 \<and> claudeStream json_two ''msg'' ''m'' [ToolCallsEvent [tc_good, tc_bad]] =
     [MessageStart ''msg'' ''m'',
      ContentBlockStart 0 (ToolUseBlock ''t1'' ''f'' (JObj []) None),
      ContentBlockDelta 0 (InputJsonDelta ''{}''),
      ContentBlockStop 0,
      MessageDelta ''tool_use'' (Finite 0),
      MessageStop]"
proof -
  have h: "JSON_parse json_two (tc_arguments tc_bad) = None"
    by (simp add: json_two_def tc_bad_def)
  note inst = C8_malformed_arguments[OF h, where ident="''msg''" and mdl="''m''"
      and content="''hi''" and reasoning="[]" and sg="[]" and pre="[tc_good]" and post="[]"
      and stopReason="''tool_use''" and usage=None and i=0 and msgId="''msg''" and before="[]"
      and after="[]"]
  have r: "cr_content (createClaudeResponse json_two ''msg'' ''m'' ''hi'' [] [] [tc_good] ''tool_use'' None)
      = [TextBlock ''hi'', ToolUseBlock ''t1'' ''f'' (JObj []) None]"
    by (simp add: createClaudeResponse_def toolUseBlock_def Let_def json_two_def tc_good_def
        passedSignature_def)
  have c: "cr_content (createClaudeResponse json_two ''msg'' ''m'' ''hi'' [] [] [tc_good, tc_bad] ''tool_use'' None)
     = [TextBlock ''hi'', ToolUseBlock ''t1'' ''f'' (JObj []) None,
        ToolUseBlock ''t2'' ''g'' (JObj []) None]"
    using inst[THEN conjunct2, THEN conjunct1] by (simp add: r tc_bad_def)
  have s: "claudeStream json_two ''msg'' ''m'' [ToolCallsEvent [tc_good]] =
     [MessageStart ''msg'' ''m'',
      ContentBlockStart 0 (ToolUseBlock ''t1'' ''f'' (JObj []) None),
      ContentBlockDelta 0 (InputJsonDelta ''{}''),
      ContentBlockStop 0,
      MessageDelta ''tool_use'' (Finite 0),
      MessageStop]"
    by (simp add: claudeStream_def initialStream_def Let_def json_two_def tc_good_def
        passedSignature_def)
  have "claudeStream json_two ''msg'' ''m'' [ToolCallsEvent [tc_good, tc_bad]]
      = claudeStream json_two ''msg'' ''m'' [ToolCallsEvent [tc_good]]"
    using inst[THEN conjunct2, THEN conjunct2, THEN conjunct2] by simp
  with h c s show ?thesis by simp
qed


end
